theory Spec2Isabelle
  imports Complex_Main
begin

section \<open>The SPI flash analyzer (SPIFlashAnalyzer.py)\<close>

text \<open>
  A shallow embedding of the class \<open>SPIFlash\<close>. Python integers are \<open>int\<close>; the host's
  time stamps and the gap values computed from them (floats in the source) are exact
  rationals; the numeric settings are whole numbers. An attribute \<open>self._x\<close> of the
  decoder is the field \<open>p_x\<close> of the record \<open>state\<close>; a setting \<open>self.x\<close> is the field
  \<open>x\<close> of the record \<open>settings\<close>. A call that raises an exception \<open>e\<close> is a value
  \<open>Inl (e, s)\<close>, with \<open>s\<close> the decoder as the raise leaves it. Only frames of type "data"
  are modelled as input (the branch of line 177 for other frames is left out), and the two
  \<open>print\<close> calls have no counterpart.
\<close>

subsection \<open>Command tables\<close>

definition CONTINUE_COMMANDS :: "int \<rightharpoonup> int" where
  "CONTINUE_COMMANDS = map_of [(0x6b, 8), (0xe7, 2), (0xeb, 4)]"

definition DATA_COMMANDS :: "int \<rightharpoonup> string" where
  "DATA_COMMANDS = map_of
     [(0x03, ''Read''),
      (0x0b, ''Fast Read''),
      (0x5b, ''Read SFDP''),
      (0x6b, ''Quad-Output Fast Read''),
      (0x9e, ''Read JEDEC ID''),
      (0x9f, ''Read JEDEC ID''),
      (0xe7, ''Quad Word Read''),
      (0xeb, ''Quad Read''),
      (0x02, ''Page Program''),
      (0x32, ''Quad Page Program''),
      (0x12, ''4-byte PAGE PROGRAM''),
      (0x13, ''4-byte READ''),
      (0x34, ''4-byte QUAD INPUT PAGE PROGRAM''),
      (0x5C, ''4-byte BLOCK ERASE 32KB''),
      (0xD8, ''4-byte BLOCK ERASE 64KB''),
      (0x20, ''4-byte SECTOR ERASE 4KB''),
      (0xE1, ''4-byte WRITE DYB REGISTER''),
      (0xE3, ''4-byte PROGRAM PPB'')]"

definition EN4B :: int where
  "EN4B = 0xB7"

definition EX4B :: int where
  "EX4B = 0xE9"

definition CONTROL_COMMANDS :: "int \<rightharpoonup> string" where
  "CONTROL_COMMANDS = map_of
     [(0x01, ''Write Status Register 1''),
      (0x06, ''Write Enable''),
      (0x04, ''Write Disable''),
      (0x05, ''Read Status Register''),
      (0x35, ''Read Status Register 2''),
      (0x5A, ''Read SFDP Mode''),
      (0x75, ''Program Suspend''),
      (0xAB, ''Release Power-down / Device ID''),
      (EN4B, ''Enable 4 Byte Address''),
      (EX4B, ''Exit 4 Byte Address''),
      (0x85, ''Read Extended Read Parameters''),
      (0xC0, ''Set Read Parameters''),
      (0x61, ''Read Read Parameters'')]"

subsection \<open>Data\<close>

datatype exn = ValueError | AttributeError

datatype level = Everything | Only_Data | Only_Errors | Only_Control

record settings =
  address_bytes :: int
  min_address :: int
  max_address :: int
  decode_level :: level

text \<open>The input frame of type "data": its start time and \<open>frame.data["data"]\<close>.\<close>

record sample =
  start_time :: rat
  data :: int

text \<open>
  \<open>FakeFrame(t, time)\<close>: "disable" and "enable" carry a time, "result" carries the two
  lists \<open>data["mosi"]\<close> and \<open>data["miso"]\<close>.
\<close>

datatype fake_frame =
  Disable "rat option"
| Enable rat
| Result "int list" "int list"

datatype frame_type = error | control_command | data_command

text \<open>The dictionary \<open>frame_data\<close>; a key that was never stored is \<open>None\<close>.\<close>

record frame_data =
  command :: "int + string"
  address :: "string option"
  num_bytes :: "int option"
  address_end :: "string option"

text \<open>\<open>AnalyzerFrame(frame_type, start_time, end_time, frame_data)\<close>.\<close>

datatype analyzer_frame =
  AnalyzerFrame frame_type "rat option" "rat option" frame_data

text \<open>
  The decoder object. \<open>p_address_format\<close> holds the width \<open>w\<close> of the format string
  \<open>"{:0w x}"\<close>; \<open>p_command\<close> is \<open>None\<close> until the attribute is first assigned
  (the constructor does not assign it).
\<close>

record state =
  p_start_time :: "rat option"
  p_address_bytes :: int
  p_address_format :: nat
  p_min_address :: int
  p_max_address :: "int option"
  p_miso_data :: "int list option"
  p_mosi_data :: "int list option"
  p_empty_result_count :: int
  p_last_cs :: int
  p_last_time :: "rat option"
  p_transaction :: int
  p_clock_count :: int
  p_mosi_out :: int
  p_miso_in :: int
  p_quad_data :: int
  p_quad_start :: "int option"
  p_continuous :: bool
  p_dummy :: int
  p_fastest_cs :: rat
  p_command :: "int option"

definition init :: "settings \<Rightarrow> state" where
  "init cfg =
     \<lparr> p_start_time = None,
       p_address_bytes = 3,
       p_address_format = 2 * 3,
       p_min_address = min_address cfg,
       p_max_address = (if max_address cfg = 0 then None else Some (max_address cfg)),
       p_miso_data = None,
       p_mosi_data = None,
       p_empty_result_count = 0,
       p_last_cs = 1,
       p_last_time = None,
       p_transaction = 0,
       p_clock_count = 0,
       p_mosi_out = 0,
       p_miso_in = 0,
       p_quad_data = 0,
       p_quad_start = None,
       p_continuous = False,
       p_dummy = 0,
       p_fastest_cs = 2000000,
       p_command = None \<rparr>"

subsection \<open>Formatting\<close>

definition hex_digit :: "nat \<Rightarrow> char" where
  "hex_digit d = ''0123456789abcdef'' ! d"

fun hex_digits :: "nat \<Rightarrow> string" where
  "hex_digits n = (if n < 16 then [hex_digit n] else hex_digits (n div 16) @ [hex_digit (n mod 16)])"

text \<open>\<open>"{:0w x}".format(n)\<close>: lower-case hexadecimal, the sign first, zeros up to width \<open>w\<close>.\<close>

definition format_hex :: "nat \<Rightarrow> int \<Rightarrow> string" where
  "format_hex w n =
     (if n < 0
      then CHR ''-'' # replicate (w - 1 - length (hex_digits (nat (- n)))) CHR ''0'' @ hex_digits (nat (- n))
      else replicate (w - length (hex_digits (nat n))) CHR ''0'' @ hex_digits (nat n))"

text \<open>\<open>hex(n)\<close> and \<open>str.upper\<close> on the characters \<open>hex\<close> produces.\<close>

definition hex :: "int \<Rightarrow> string" where
  "hex n = (if n < 0 then ''-0x'' @ hex_digits (nat (- n)) else ''0x'' @ hex_digits (nat n))"

definition upper_char :: "char \<Rightarrow> char" where
  "upper_char c =
     (if (97::nat) \<le> of_char c \<and> of_char c \<le> (122::nat) then char_of (of_char c - (32::nat)) else c)"

definition upper :: "string \<Rightarrow> string" where
  "upper s = map upper_char s"

subsection \<open>Burst boundary detection (lines 110 to 140)\<close>

definition cs_of :: "sample \<Rightarrow> int" where
  "cs_of frame = drop_bit 15 (data frame)"

text \<open>
  Lines 111 to 115. \<open>_last_time\<close> is \<open>None\<close> until the first sample and a time stamp
  object afterwards, which Python takes for true whatever its value.
\<close>

definition diff_of :: "state \<Rightarrow> sample \<Rightarrow> rat" where
  "diff_of s frame =
     (case p_last_time s of
        Some l \<Rightarrow> start_time frame - l
      | None \<Rightarrow> p_fastest_cs s) * 1000000000"

text \<open>The condition of line 118, with the threshold of line 117.\<close>

definition burst_start :: "state \<Rightarrow> sample \<Rightarrow> bool" where
  "burst_start s frame =
     (diff_of s frame > min (diff_of s frame * 4) (p_fastest_cs s) \<and> cs_of frame = 0)"

definition detect :: "state \<Rightarrow> sample \<Rightarrow> (exn \<times> state) + (state \<times> fake_frame list)" where
  "detect s frame =
     (let diff = diff_of s frame;
          s1 = s\<lparr>p_fastest_cs := min (diff * 4) (p_fastest_cs s)\<rparr>
      in if diff > p_fastest_cs s1 \<and> cs_of frame = 0
         then
           (let frames = (if p_transaction s1 > 0 then [Disable (p_last_time s1)] else [])
                         @ [Enable (start_time frame)];
                s2 = s1\<lparr>p_transaction := p_transaction s1 + 1, p_clock_count := 0\<rparr>
            in if p_continuous s2
               then (case p_command s2 of
                       None \<Rightarrow> Inl (AttributeError, s2\<lparr>p_clock_count := 8\<rparr>)
                     | Some c \<Rightarrow>
                         Inr (s2\<lparr>p_clock_count := 8, p_last_time := Some (start_time frame)\<rparr>,
                              frames @ [Result [c] [0]]))
               else Inr (s2\<lparr>p_command := Some 0, p_quad_start := None, p_dummy := 0,
                             p_mosi_out := 0, p_miso_in := 0,
                             p_last_time := Some (start_time frame)\<rparr>,
                         frames))
         else Inr (s1\<lparr>p_last_time := Some (start_time frame)\<rparr>, []))"

subsection \<open>Lane assembly (lines 145 to 176)\<close>

definition single_lane :: "state \<Rightarrow> bool" where
  "single_lane s =
     (case p_quad_start s of None \<Rightarrow> True | Some q \<Rightarrow> p_clock_count s < q)"

definition assemble :: "state \<Rightarrow> int \<Rightarrow> (exn \<times> state) + (state \<times> fake_frame list)" where
  "assemble s d =
     (if single_lane s
      then
        (let s1 = s\<lparr>p_mosi_out := or (push_bit 1 (p_mosi_out s)) (and d 1),
                     p_miso_in := or (push_bit 1 (p_miso_in s)) (and (drop_bit 1 d) 1)\<rparr>
         in if p_clock_count s1 mod 8 = 7
            then
              (let s2 = (if p_clock_count s1 = 7
                         then (case CONTINUE_COMMANDS (p_mosi_out s1) of
                                 Some dm \<Rightarrow> s1\<lparr>p_command := Some (p_mosi_out s1),
                                                p_quad_start := Some 8, p_dummy := dm\<rparr>
                               | None \<Rightarrow> s1\<lparr>p_command := Some (p_mosi_out s1)\<rparr>)
                         else s1)
               in Inr (s2\<lparr>p_mosi_out := 0, p_miso_in := 0, p_clock_count := p_clock_count s2 + 1\<rparr>,
                       [Result [p_mosi_out s2] [p_miso_in s2]]))
            else Inr (s1\<lparr>p_clock_count := p_clock_count s1 + 1\<rparr>, []))
      else
        (let s1 = s\<lparr>p_quad_data := or (push_bit 4 (p_quad_data s)) (and d 15)\<rparr>
         in if p_clock_count s1 mod 2 = 1
            then
              (let f = (if 15 < p_clock_count s1 \<and> p_clock_count s1 \<le> 15 + p_dummy s1
                        then Result [0] [p_quad_data s1]
                        else Result [p_quad_data s1] [0])
               in case p_command s1 of
                    None \<Rightarrow> Inl (AttributeError, s1)
                  | Some c \<Rightarrow>
                      (let s2 = (if (case CONTINUE_COMMANDS c of Some dm \<Rightarrow> True | None \<Rightarrow> False)
                                    \<and> p_clock_count s1 = 15
                                 then s1\<lparr>p_continuous := (and (p_quad_data s1) 0xf0 = 0xa0)\<rparr>
                                 else s1)
                       in Inr (s2\<lparr>p_quad_data := 0, p_clock_count := p_clock_count s2 + 1\<rparr>, [f])))
            else Inr (s1\<lparr>p_clock_count := p_clock_count s1 + 1\<rparr>, [])))"

subsection \<open>The loop over the frames of one call (lines 181 to 252)\<close>

text \<open>\<open>bytearray.extend\<close>: every item must be in \<open>range(256)\<close>, otherwise ValueError.\<close>

definition extend :: "int list \<Rightarrow> int list \<Rightarrow> exn + int list" where
  "extend b xs = (if list_all (\<lambda>x. 0 \<le> x \<and> x < 256) xs then Inr (b @ xs) else Inl ValueError)"

text \<open>The address loop of lines 207 to 210.\<close>

definition frame_address_of :: "state \<Rightarrow> int list \<Rightarrow> int" where
  "frame_address_of s mosi =
     fold (\<lambda>i a. push_bit 8 a + mosi ! (1 + i)) [0..<nat (p_address_bytes s)] 0"

text \<open>Lines 211 to 214: the address filter drops the burst.\<close>

definition filtered_out :: "settings \<Rightarrow> state \<Rightarrow> int \<Rightarrow> bool" where
  "filtered_out cfg s frame_address =
     (if min_address cfg > 0 \<and> frame_address < p_min_address s then True
      else if max_address cfg \<noteq> 0 \<and> frame_address > max_address cfg then True
      else False)"

text \<open>Lines 217 to 221.\<close>

definition non_data_bytes_of :: "string \<Rightarrow> int" where
  "non_data_bytes_of name =
     2 + (if Some name = DATA_COMMANDS 0x0b then 1 else 0)
       + (if Some name = DATA_COMMANDS 0xeb then 2 else 0)"

text \<open>
  Lines 198 to 236: the frame type (\<open>None\<close> when the address filter drops the burst), the
  dictionary and the decoder after the classification of a non-empty \<open>mosi\<close> sequence.
\<close>

definition classify :: "settings \<Rightarrow> state \<Rightarrow> int list \<Rightarrow> frame_type option \<times> frame_data \<times> state" where
  "classify cfg s mosi =
     (let cmd = mosi ! 0;
          frame_data = \<lparr>command = Inl cmd, address = None, num_bytes = None, address_end = None\<rparr>
      in case DATA_COMMANDS cmd of
           Some name \<Rightarrow>
             (if int (length mosi) < 1 + p_address_bytes s
              then (Some error, frame_data, s)
              else
                (let frame_data = frame_data\<lparr>command := Inr name\<rparr>;
                     frame_address = frame_address_of s mosi
                 in if filtered_out cfg s frame_address
                    then (None, frame_data, s)
                    else
                      (let num_data_bytes =
                             int (length mosi) - address_bytes cfg - non_data_bytes_of name
                       in (Some data_command,
                           frame_data\<lparr>address := Some (format_hex (p_address_format s) frame_address),
                                      num_bytes := Some num_data_bytes,
                                      address_end := Some (format_hex (p_address_format s)
                                                            (frame_address + num_data_bytes))\<rparr>,
                           s))))
         | None \<Rightarrow>
             (let frame_data =
                    frame_data\<lparr>command :=
                      Inr (case CONTROL_COMMANDS cmd of
                             Some name \<Rightarrow> name
                           | None \<Rightarrow> ''0x'' @ drop 2 (upper (hex cmd)))\<rparr>;
                  s1 = (if cmd = EN4B then s\<lparr>p_address_bytes := 4, p_address_format := 2 * 4\<rparr>
                        else if cmd = EX4B then s\<lparr>p_address_bytes := 3, p_address_format := 2 * 3\<rparr>
                        else s)
              in (Some control_command, frame_data, s1)))"

text \<open>Lines 245 to 250: the record of this frame type is skipped at this level.\<close>

definition suppressed :: "level \<Rightarrow> frame_type option \<Rightarrow> bool" where
  "suppressed lvl ft =
     (if lvl = Only_Data \<and> ft = Some control_command then True
      else if lvl = Only_Errors \<and> ft \<noteq> Some error then True
      else if lvl = Only_Control \<and> ft \<noteq> Some control_command then True
      else False)"

text \<open>
  One pass of the loop body; \<open>output\<close> is the loop's variable of that name. In the "result"
  case line 193 extends \<open>_miso_data\<close> before line 194 extends \<open>_mosi_data\<close>: when the second
  call raises, the first buffer is already longer.
\<close>

fun process :: "settings \<Rightarrow> state \<Rightarrow> analyzer_frame option \<Rightarrow> fake_frame
    \<Rightarrow> (exn \<times> state) + (state \<times> analyzer_frame option)" where
  "process cfg s output (Enable t) =
     Inr (s\<lparr>p_start_time := Some t, p_miso_data := Some [], p_mosi_data := Some []\<rparr>, output)"
| "process cfg s output (Result mosi miso) =
     (case p_miso_data s of
        None \<Rightarrow> Inr (s\<lparr>p_empty_result_count := p_empty_result_count s + 1\<rparr>, output)
      | Some miso_data \<Rightarrow>
          (case p_mosi_data s of
             None \<Rightarrow> Inr (s\<lparr>p_empty_result_count := p_empty_result_count s + 1\<rparr>, output)
           | Some mosi_data \<Rightarrow>
               (case extend miso_data miso of
                  Inl e \<Rightarrow> Inl (e, s)
                | Inr miso_data' \<Rightarrow>
                    (case extend mosi_data mosi of
                       Inl e \<Rightarrow> Inl (e, s\<lparr>p_miso_data := Some miso_data'\<rparr>)
                     | Inr mosi_data' \<Rightarrow>
                         Inr (s\<lparr>p_miso_data := Some miso_data', p_mosi_data := Some mosi_data'\<rparr>,
                              output)))))"
| "process cfg s output (Disable end_time) =
     (case p_miso_data s of
        None \<Rightarrow> Inr (s, output)
      | Some miso_data \<Rightarrow>
          (case p_mosi_data s of
             None \<Rightarrow> Inr (s, output)
           | Some mosi_data \<Rightarrow>
               (if miso_data = [] \<or> mosi_data = [] then Inr (s, output)
                else
                  (case classify cfg s mosi_data of
                     (frame_type, frame_data, s1) \<Rightarrow>
                       (let our_frame =
                              (case frame_type of
                                 None \<Rightarrow> None
                               | Some t \<Rightarrow> Some (AnalyzerFrame t (p_start_time s1) end_time frame_data));
                            s2 = s1\<lparr>p_miso_data := None, p_mosi_data := None\<rparr>
                        in if suppressed (decode_level cfg) frame_type then Inr (s2, output)
                           else Inr (s2, our_frame))))))"

fun process_all :: "settings \<Rightarrow> state \<Rightarrow> analyzer_frame option \<Rightarrow> fake_frame list
    \<Rightarrow> (exn \<times> state) + (state \<times> analyzer_frame option)" where
  "process_all cfg s output [] = Inr (s, output)"
| "process_all cfg s output (f # fs) =
     (case process cfg s output f of
        Inl e \<Rightarrow> Inl e
      | Inr (s', output') \<Rightarrow> process_all cfg s' output' fs)"

subsection \<open>decode\<close>

definition decode :: "settings \<Rightarrow> state \<Rightarrow> sample
    \<Rightarrow> (exn \<times> state) + (state \<times> analyzer_frame option)" where
  "decode cfg s frame =
     (case detect s frame of
        Inl e \<Rightarrow> Inl e
      | Inr (s1, frames) \<Rightarrow>
          (if cs_of frame = 1 then Inr (s1, None)
           else
             (case assemble s1 (data frame) of
                Inl e \<Rightarrow> Inl e
              | Inr (s2, frames2) \<Rightarrow> process_all cfg s2 None (frames @ frames2))))"

text \<open>
  The host calls \<open>decode\<close> once for each frame, in order, on the same object, until a call
  raises.
\<close>

fun run :: "settings \<Rightarrow> state \<Rightarrow> sample list
    \<Rightarrow> (exn \<times> state) + (state \<times> analyzer_frame option list)" where
  "run cfg s [] = Inr (s, [])"
| "run cfg s (f # fs) =
     (case decode cfg s f of
        Inl e \<Rightarrow> Inl e
      | Inr (s', out) \<Rightarrow>
          (case run cfg s' fs of
             Inl e \<Rightarrow> Inl e
           | Inr (s'', outs) \<Rightarrow> Inr (s'', out # outs)))"

subsection \<open>Auxiliary notions for the properties\<close>

text \<open>
  Lines 117 and 140: what every call on a "data" frame does to the two timing attributes,
  whether or not a burst starts.
\<close>

definition tick :: "state \<Rightarrow> sample \<Rightarrow> state" where
  "tick s frame =
     s\<lparr>p_fastest_cs := min (diff_of s frame * 4) (p_fastest_cs s),
       p_last_time := Some (start_time frame)\<rparr>"

text \<open>
  The two buffers exist together (a burst is open) or not at all, and when they exist
  they have the same length.
\<close>

definition buffers_aligned :: "state \<Rightarrow> bool" where
  "buffers_aligned s =
     (case p_miso_data s of
        None \<Rightarrow> p_mosi_data s = None
      | Some miso \<Rightarrow> (case p_mosi_data s of None \<Rightarrow> False | Some mosi \<Rightarrow> length miso = length mosi))"

text \<open>A "result" event that carries as many host bytes as device bytes; a "disable" event.\<close>

definition balanced :: "fake_frame \<Rightarrow> bool" where
  "balanced f = (case f of Result mosi miso \<Rightarrow> length mosi = length miso | _ \<Rightarrow> True)"

definition is_disable :: "fake_frame \<Rightarrow> bool" where
  "is_disable f = (case f of Disable e \<Rightarrow> True | _ \<Rightarrow> False)"

text \<open>The bits of a byte, most significant bit first.\<close>

definition bits_msb :: "int \<Rightarrow> int list" where
  "bits_msb b = map (\<lambda>i. and (drop_bit i b) 1) (rev [0..<8])"

text \<open>
  Shifting bits into an accumulator as lines 146 and 147 do, first bit first; two decoders
  with the same timing attributes; and a run of samples none of which line 118 takes for
  the start of a burst.
\<close>

fun pack :: "int \<Rightarrow> int list \<Rightarrow> int" where
  "pack acc [] = acc"
| "pack acc (b # bs) = pack (or (push_bit 1 acc) b) bs"

definition same_timing :: "state \<Rightarrow> state \<Rightarrow> bool" where
  "same_timing a b = (p_last_time a = p_last_time b \<and> p_fastest_cs a = p_fastest_cs b)"

fun quiet :: "state \<Rightarrow> sample list \<Rightarrow> bool" where
  "quiet s [] = True"
| "quiet s (f # fs) = (if burst_start s f then False else quiet (tick s f) fs)"

text \<open>
  Two decoders with the same start time, address width and format, address minimum,
  transaction count and continuous flag; and the decoder after lines 110 to 176 of a call
  that opens a burst carrying its own opcode.
\<close>

definition same_burst :: "state \<Rightarrow> state \<Rightarrow> bool" where
  "same_burst a b =
     (p_start_time a = p_start_time b \<and> p_address_bytes a = p_address_bytes b
      \<and> p_address_format a = p_address_format b \<and> p_min_address a = p_min_address b
      \<and> p_transaction a = p_transaction b \<and> p_continuous a = p_continuous b)"

definition opened :: "state \<Rightarrow> sample \<Rightarrow> state" where
  "opened s frame =
     (tick s frame)\<lparr>p_transaction := p_transaction s + 1, p_clock_count := 1,
       p_command := Some 0, p_quad_start := None, p_dummy := 0,
       p_mosi_out := and (data frame) 1, p_miso_in := and (drop_bit 1 (data frame)) 1\<rparr>"

subsection \<open>Example inputs\<close>

definition example_settings :: settings where
  "example_settings = \<lparr>address_bytes = 3, min_address = 0, max_address = 0, decode_level = Everything\<rparr>"

text \<open>Data words sampled at a fixed period.\<close>

fun clock :: "rat \<Rightarrow> rat \<Rightarrow> int list \<Rightarrow> sample list" where
  "clock t dt [] = []"
| "clock t dt (d # ds) = \<lparr>start_time = t, data = d\<rparr> # clock (t + dt) dt ds"

text \<open>
  The decoder after one burst with the host bytes 03 00 (a Read cut short), sampled from
  time 0 at one edge per microsecond.
\<close>

definition truncated_read_state :: state where
  "truncated_read_state =
     (init example_settings)\<lparr>p_start_time := Some 0,
       p_miso_data := Some [0, 0], p_mosi_data := Some [0x03, 0x00],
       p_last_time := Some (3 / 200000), p_transaction := 1, p_clock_count := 16,
       p_fastest_cs := 4000, p_command := Some 0x03\<rparr>"



text \<open>
  The decoder after a burst B7 from time 0 and a burst 13 00 10 00 00 AA BB from time 1,
  both at one edge per microsecond.
\<close>

definition read4_state :: state where
  "read4_state =
     (init example_settings)\<lparr>p_start_time := Some 1, p_address_bytes := 4, p_address_format := 8,
       p_miso_data := Some [0, 0, 0, 0, 0, 0, 0],
       p_mosi_data := Some [0x13, 0x00, 0x10, 0x00, 0x00, 0xAA, 0xBB],
       p_last_time := Some (200011 / 200000), p_transaction := 2, p_clock_count := 56,
       p_fastest_cs := 4000, p_command := Some 0x13\<rparr>"

text \<open>
  The decoder inside a Quad Read burst (opcode EB, then the nibbles 0 0 1 0 0 0 A 5 of
  address and mode byte, four dummy nibbles 0, and the nibble C), sampled from time 0 at
  one edge per microsecond: before edge 15 (the second nibble of the mode byte), before
  edge 17 (inside the dummy window, edges 16 to 19) and before edge 21 (after it).
\<close>

definition quad_read_mode_state :: state where
  "quad_read_mode_state =
     (init example_settings)\<lparr>p_start_time := Some 0,
       p_miso_data := Some [0, 0, 0, 0], p_mosi_data := Some [0xEB, 0x00, 0x10, 0x00],
       p_last_time := Some (7 / 500000), p_transaction := 1, p_clock_count := 15,
       p_quad_data := 0xA, p_quad_start := Some 8, p_dummy := 4,
       p_fastest_cs := 4000, p_command := Some 0xEB\<rparr>"

definition quad_read_dummy_state :: state where
  "quad_read_dummy_state =
     (init example_settings)\<lparr>p_start_time := Some 0,
       p_miso_data := Some [0, 0, 0, 0, 0], p_mosi_data := Some [0xEB, 0x00, 0x10, 0x00, 0xA5],
       p_last_time := Some (1 / 62500), p_transaction := 1, p_clock_count := 17,
       p_quad_data := 0, p_quad_start := Some 8, p_continuous := True, p_dummy := 4,
       p_fastest_cs := 4000, p_command := Some 0xEB\<rparr>"

definition quad_read_data_state :: state where
  "quad_read_data_state =
     (init example_settings)\<lparr>p_start_time := Some 0,
       p_miso_data := Some [0, 0, 0, 0, 0, 0, 0],
       p_mosi_data := Some [0xEB, 0x00, 0x10, 0x00, 0xA5, 0x00, 0x00],
       p_last_time := Some (1 / 50000), p_transaction := 1, p_clock_count := 21,
       p_quad_data := 0xC, p_quad_start := Some 8, p_continuous := True, p_dummy := 4,
       p_fastest_cs := 4000, p_command := Some 0xEB\<rparr>"

section \<open>Properties\<close>

subsection \<open>Burst boundary detection\<close>

lemma cs_bit15:
  assumes "0 \<le> d" "d < 65536" "bit d 15"
  shows "drop_bit 15 (d::int) = 1"
proof -
  have o: "odd (d div 2 ^ 15)" using assms(3) by (simp add: bit_iff_odd)
  have "d div 2 ^ 15 < 2" using assms(2) by (simp add: div_less_iff_less_mult flip: zdiv_zmult2_eq)
  moreover have "0 \<le> d div 2 ^ 15" using assms(1) by simp
  ultimately have "d div 2 ^ 15 = 0 \<or> d div 2 ^ 15 = 1" by arith
  with o show ?thesis by (auto simp: drop_bit_eq_div)
qed

lemma detect_no_start: "\<not> burst_start s frame \<Longrightarrow> detect s frame = Inr (tick s frame, [])"
  by (auto simp add: detect_def burst_start_def tick_def Let_def)

lemma decode_cs_one:
  assumes "cs_of frame = 1"
  shows "decode cfg s frame =
     Inr (s\<lparr>p_fastest_cs := min (diff_of s frame * 4) (p_fastest_cs s),
            p_last_time := Some (start_time frame)\<rparr>, None)"
proof -
  have "\<not> burst_start s frame" using assms by (simp add: burst_start_def)
  then show ?thesis using assms by (simp add: decode_def detect_no_start tick_def)
qed

text \<open>
  C10. A sample whose data word is a 16-bit word with bit 15 (chip select) set makes
  \<open>decode\<close> return \<open>None\<close>; the decoder afterwards is the decoder before with the
  gap threshold \<open>_fastest_cs\<close> and the time of the last sample \<open>_last_time\<close> updated, every
  other attribute (buffers, bit accumulators, clock count, opcode, address width,
  continuous flag, transaction count) as it was.
\<close>

theorem decode_cs_deasserted:
  assumes "0 \<le> data frame" and "data frame < 65536" and "bit (data frame) 15"
  shows "decode cfg s frame =
     Inr (s\<lparr>p_fastest_cs := min (diff_of s frame * 4) (p_fastest_cs s),
            p_last_time := Some (start_time frame)\<rparr>, None)"
  using assms by (intro decode_cs_one) (simp add: cs_of_def cs_bit15)

theorem decode_cs_deasserted_witness:
  "0 \<le> data \<lparr>start_time = 1, data = 0x8003\<rparr> \<and> data \<lparr>start_time = 1, data = 0x8003\<rparr> < 65536
   \<and> bit (data \<lparr>start_time = 1, data = 0x8003\<rparr>) 15
   \<and> decode example_settings (init example_settings) \<lparr>start_time = 1, data = 0x8003\<rparr>
       = Inr ((init example_settings)\<lparr>p_last_time := Some 1\<rparr>, None)"
proof -
  have a: "0 \<le> data \<lparr>start_time = 1, data = 0x8003\<rparr>" "data \<lparr>start_time = 1, data = 0x8003\<rparr> < 65536"
    by simp_all
  have b: "bit (data \<lparr>start_time = 1, data = 0x8003\<rparr>) 15"
    by (simp add: bit_iff_odd)
  have d: "decode example_settings (init example_settings) \<lparr>start_time = 1, data = 0x8003\<rparr>
       = Inr ((init example_settings)\<lparr>p_last_time := Some 1\<rparr>, None)"
    by (simp add: decode_cs_deasserted [OF a b] init_def diff_of_def)
  from a b d show ?thesis by blast
qed

text \<open>
  C6, as stated, fails: on the first sample of a new decoder the gap is not the threshold
  but the threshold times \<open>10^9\<close> (line 115 scales the fallback value as well), so a first
  sample with chip select 0 does start a burst.
\<close>

theorem first_sample_counterexample:
  "diff_of (init example_settings) \<lparr>start_time = 0, data = 0\<rparr> \<noteq> p_fastest_cs (init example_settings)
   \<and> burst_start (init example_settings) \<lparr>start_time = 0, data = 0\<rparr>
   \<and> detect (init example_settings) \<lparr>start_time = 0, data = 0\<rparr>
       = Inr ((init example_settings)\<lparr>p_transaction := 1, p_command := Some 0, p_last_time := Some 0\<rparr>,
              [Enable 0])"
  by (simp add: init_def diff_of_def burst_start_def detect_def cs_of_def Let_def)

text \<open>
  C6, amended. On the first sample of a new decoder the gap is the threshold times
  \<open>10^9\<close>, which is greater than the threshold; a burst start is detected exactly when the
  chip-select value \<open>data >> 15\<close> is 0, and then the only event is "enable" (no burst was
  open before).
\<close>

theorem first_sample_gap:
  "diff_of (init cfg) frame = p_fastest_cs (init cfg) * 1000000000
   \<and> p_fastest_cs (init cfg) < diff_of (init cfg) frame
   \<and> burst_start (init cfg) frame = (cs_of frame = 0)
   \<and> detect (init cfg) frame =
       Inr (if cs_of frame = 0
            then ((init cfg)\<lparr>p_transaction := 1, p_command := Some 0,
                             p_last_time := Some (start_time frame)\<rparr>, [Enable (start_time frame)])
            else ((init cfg)\<lparr>p_last_time := Some (start_time frame)\<rparr>, []))"
  by (simp add: init_def diff_of_def burst_start_def detect_def Let_def)

subsection \<open>Classification of a completed burst\<close>

lemma process_disable:
  assumes "p_miso_data s = Some miso" "p_mosi_data s = Some mosi" "miso \<noteq> []" "mosi \<noteq> []"
    and "classify cfg s mosi = (ft, fd, s1)"
  shows "process cfg s output (Disable e) =
           Inr (s1\<lparr>p_miso_data := None, p_mosi_data := None\<rparr>,
                if suppressed (decode_level cfg) ft then output
                else (case ft of None \<Rightarrow> None
                      | Some t \<Rightarrow> Some (AnalyzerFrame t (p_start_time s1) e fd)))"
  using assms by simp

lemma classify_truncated:
  assumes "DATA_COMMANDS (mosi ! 0) = Some name" "int (length mosi) < 1 + p_address_bytes s"
  shows "classify cfg s mosi =
     (Some error, \<lparr>command = Inl (mosi ! 0), address = None, num_bytes = None, address_end = None\<rparr>, s)"
  using assms by (simp add: classify_def)

lemma classify_data:
  assumes "DATA_COMMANDS (mosi ! 0) = Some name" "\<not> int (length mosi) < 1 + p_address_bytes s"
     "\<not> filtered_out cfg s (frame_address_of s mosi)"
  shows "classify cfg s mosi =
     (Some data_command,
      \<lparr>command = Inr name,
       address = Some (format_hex (p_address_format s) (frame_address_of s mosi)),
       num_bytes = Some (int (length mosi) - address_bytes cfg - non_data_bytes_of name),
       address_end = Some (format_hex (p_address_format s)
           (frame_address_of s mosi + (int (length mosi) - address_bytes cfg - non_data_bytes_of name)))\<rparr>, s)"
  using assms by (simp add: classify_def Let_def)



lemma frame_address_4:
  "p_address_bytes s = 4 \<Longrightarrow>
   frame_address_of s (c # a3 # a2 # a1 # a0 # rest) = ((a3 * 256 + a2) * 256 + a1) * 256 + a0"
  by (simp add: frame_address_of_def push_bit_eq_mult numeral_eq_Suc)






text \<open>
  C7, as stated, fails: at level 'Only Data' line 245 skips Control records only, so the
  Error record of a truncated Read is emitted.
\<close>

theorem output_level_counterexample:
  "process (example_settings\<lparr>decode_level := Only_Data\<rparr>) truncated_read_state None (Disable (Some 1)) =
     Inr (truncated_read_state\<lparr>p_miso_data := None, p_mosi_data := None\<rparr>,
          Some (AnalyzerFrame error (Some 0) (Some 1)
                  \<lparr>command = Inl 0x03, address = None, num_bytes = None, address_end = None\<rparr>))"
  by (simp add: truncated_read_state_def init_def example_settings_def classify_def
        DATA_COMMANDS_def suppressed_def)

text \<open>
  C7, amended. When a completed burst is classified as a record of type \<open>t\<close>, the record
  becomes the output at level 'Everything' always, at 'Only Data' when it is a Data or an
  Error record, at 'Only Errors' when it is an Error record and at 'Only Control' when it
  is a Control record; otherwise it is skipped and the loop's output stays as it was
  (\<open>decode\<close> starts the loop with \<open>None\<close> and handles "disable" first).
\<close>

theorem output_level_filter:
  assumes "p_miso_data s = Some miso" and "p_mosi_data s = Some mosi"
    and "miso \<noteq> []" and "mosi \<noteq> []"
    and "classify cfg s mosi = (Some t, fd, s1)"
  shows "process cfg s output (Disable e) =
     Inr (s1\<lparr>p_miso_data := None, p_mosi_data := None\<rparr>,
          if (case decode_level cfg of
                Everything \<Rightarrow> True
              | Only_Data \<Rightarrow> t = data_command \<or> t = error
              | Only_Errors \<Rightarrow> t = error
              | Only_Control \<Rightarrow> t = control_command)
          then Some (AnalyzerFrame t (p_start_time s1) e fd)
          else output)"
proof -
  have "suppressed (decode_level cfg) (Some t) =
     (\<not> (case decode_level cfg of
            Everything \<Rightarrow> True
          | Only_Data \<Rightarrow> t = data_command \<or> t = error
          | Only_Errors \<Rightarrow> t = error
          | Only_Control \<Rightarrow> t = control_command))"
    by (cases "decode_level cfg"; cases t; simp add: suppressed_def)
  then show ?thesis
    using process_disable [OF assms, of "output" e] by simp
qed

theorem output_level_filter_witness:
  "process (example_settings\<lparr>decode_level := Only_Control\<rparr>) truncated_read_state None (Disable (Some 1)) =
     Inr (truncated_read_state\<lparr>p_miso_data := None, p_mosi_data := None\<rparr>, None)
   \<and> process (example_settings\<lparr>decode_level := Only_Errors\<rparr>) truncated_read_state None (Disable (Some 1)) =
     Inr (truncated_read_state\<lparr>p_miso_data := None, p_mosi_data := None\<rparr>,
          Some (AnalyzerFrame error (Some 0) (Some 1)
                  \<lparr>command = Inl 0x03, address = None, num_bytes = None, address_end = None\<rparr>))"
proof -
  have b: "p_miso_data truncated_read_state = Some [0, 0]"
      "p_mosi_data truncated_read_state = Some [0x03, 0x00]" "[0, 0] \<noteq> ([] :: int list)"
      "[0x03, 0x00] \<noteq> ([] :: int list)"
    by (simp_all add: truncated_read_state_def)
  have c: "classify cfg truncated_read_state [0x03, 0x00] =
      (Some error, \<lparr>command = Inl 0x03, address = None, num_bytes = None, address_end = None\<rparr>,
       truncated_read_state)" for cfg
    by (simp add: classify_def DATA_COMMANDS_def truncated_read_state_def init_def)
  have s: "p_start_time truncated_read_state = Some 0"
    by (simp add: truncated_read_state_def)
  show ?thesis
    using output_level_filter [OF b c, of "example_settings\<lparr>decode_level := Only_Control\<rparr>" None "Some 1"]
      output_level_filter [OF b c, of "example_settings\<lparr>decode_level := Only_Errors\<rparr>" None "Some 1"] s
    by simp
qed

text \<open>
  C5. A completed burst with non-empty sequences whose first host byte is a data opcode
  and whose host sequence is shorter than \<open>1 + _address_bytes\<close> is classified as "error",
  with only the opcode in the record; no exception is raised; both buffers are reset to
  \<open>None\<close>. The Error record is the output at every level except 'Only Control'.
\<close>

theorem truncated_data_command:
  assumes "p_miso_data s = Some miso" and "p_mosi_data s = Some mosi"
    and "miso \<noteq> []" and "mosi \<noteq> []"
    and "DATA_COMMANDS (mosi ! 0) = Some name"
    and "int (length mosi) < 1 + p_address_bytes s"
  shows "classify cfg s mosi =
           (Some error,
            \<lparr>command = Inl (mosi ! 0), address = None, num_bytes = None, address_end = None\<rparr>, s)
         \<and> process cfg s output (Disable e) =
           Inr (s\<lparr>p_miso_data := None, p_mosi_data := None\<rparr>,
                if decode_level cfg = Only_Control then output
                else Some (AnalyzerFrame error (p_start_time s) e
                       \<lparr>command = Inl (mosi ! 0), address = None, num_bytes = None,
                        address_end = None\<rparr>))"
proof -
  note c = classify_truncated [OF assms(5,6), of cfg]
  have "suppressed (decode_level cfg) (Some error) = (decode_level cfg = Only_Control)"
    by (cases "decode_level cfg") (simp_all add: suppressed_def)
  then show ?thesis
    using c process_disable [OF assms(1-4) c, of "output" e] by simp
qed

theorem truncated_data_command_witness:
  "classify example_settings truncated_read_state [0x03, 0x00] =
           (Some error,
            \<lparr>command = Inl 0x03, address = None, num_bytes = None, address_end = None\<rparr>,
            truncated_read_state)
   \<and> process example_settings truncated_read_state None (Disable (Some 1)) =
           Inr (truncated_read_state\<lparr>p_miso_data := None, p_mosi_data := None\<rparr>,
                Some (AnalyzerFrame error (Some 0) (Some 1)
                       \<lparr>command = Inl 0x03, address = None, num_bytes = None,
                        address_end = None\<rparr>))"
proof -
  have b: "p_miso_data truncated_read_state = Some [0, 0]"
      "p_mosi_data truncated_read_state = Some [0x03, 0x00]" "[0, 0] \<noteq> ([] :: int list)"
      "[0x03, 0x00] \<noteq> ([] :: int list)"
    by (simp_all add: truncated_read_state_def)
  have d: "DATA_COMMANDS ([0x03, 0x00] ! 0) = Some ''Read''"
    by (simp add: DATA_COMMANDS_def)
  have l: "int (length [0x03, 0x00 :: int]) < 1 + p_address_bytes truncated_read_state"
    by (simp add: truncated_read_state_def init_def)
  have s: "p_start_time truncated_read_state = Some 0"
    by (simp add: truncated_read_state_def)
  have e: "decode_level example_settings \<noteq> Only_Control"
    by (simp add: example_settings_def)
  show ?thesis
    using truncated_data_command [OF b d l, of example_settings None "Some 1"] s e by simp
qed

text \<open>
  C2: the payload count is computed at line 222 from the setting \<open>address_bytes\<close>, not
  from the mode \<open>_address_bytes\<close> that lines 202 and 208 use. In the 4-byte mode with the
  setting 3, a "4-byte READ" burst of 7 host bytes is reported with 2 data bytes and the
  end address 00100002, where the mode gives \<open>7 - (4 + 2) = 1\<close> and 00100001.
\<close>

theorem payload_count_uses_setting:
  "p_address_bytes read4_state = 4 \<and> address_bytes example_settings = 3
   \<and> p_mosi_data read4_state = Some [0x13, 0x00, 0x10, 0x00, 0x00, 0xAA, 0xBB]
   \<and> map_sum id snd (decode example_settings read4_state \<lparr>start_time = 2, data = 0\<rparr>) =
       Inr (Some (AnalyzerFrame data_command (Some 1) (Some (200011 / 200000))
              \<lparr>command = Inr ''4-byte READ'', address = Some ''00100000'',
               num_bytes = Some 2, address_end = Some ''00100002''\<rparr>))"
proof -
  let ?mosi = "[0x13, 0x00, 0x10, 0x00, 0x00, 0xAA, 0xBB] :: int list"
  let ?s1 = "read4_state\<lparr>p_transaction := 3, p_clock_count := 0, p_command := Some 0, p_last_time := Some 2\<rparr>"
  let ?s2 = "read4_state\<lparr>p_transaction := 3, p_clock_count := 1, p_command := Some 0, p_last_time := Some 2\<rparr>"
  have a: "p_address_bytes read4_state = 4" "p_address_format read4_state = 8"
      "p_mosi_data read4_state = Some ?mosi"
    by (simp_all add: read4_state_def)
  have de: "detect read4_state \<lparr>start_time = 2, data = 0\<rparr> =
      Inr (?s1, [Disable (Some (200011 / 200000)), Enable 2])"
    by (simp add: detect_def read4_state_def init_def diff_of_def cs_of_def Let_def)
  have as: "assemble ?s1 0 = Inr (?s2, [])"
    by (simp add: assemble_def read4_state_def init_def single_lane_def Let_def)
  have d: "DATA_COMMANDS (?mosi ! 0) = Some ''4-byte READ''"
    by (simp add: DATA_COMMANDS_def)
  have f: "frame_address_of ?s2 ?mosi = 0x100000"
    by (simp add: frame_address_4 a)
  have n: "non_data_bytes_of ''4-byte READ'' = 2"
    by (simp add: non_data_bytes_of_def DATA_COMMANDS_def)
  have x: "format_hex 8 0x100000 = ''00100000''" "format_hex 8 0x100002 = ''00100002''"
    by (simp_all add: format_hex_def hex_digit_def numeral_2_eq_2)
  have c: "classify example_settings ?s2 ?mosi
     = (Some data_command, \<lparr>command = Inr ''4-byte READ'', address = Some ''00100000'',
               num_bytes = Some 2, address_end = Some ''00100002''\<rparr>, ?s2)"
    by (subst classify_data [OF d])
       (simp_all add: a f n x filtered_out_def example_settings_def)
  have b: "p_miso_data ?s2 = Some [0, 0, 0, 0, 0, 0, 0]" "p_mosi_data ?s2 = Some ?mosi"
    by (simp_all add: read4_state_def)
  have p: "process example_settings ?s2 None (Disable (Some (200011 / 200000))) =
      Inr (?s2\<lparr>p_miso_data := None, p_mosi_data := None\<rparr>,
           Some (AnalyzerFrame data_command (Some 1) (Some (200011 / 200000))
              \<lparr>command = Inr ''4-byte READ'', address = Some ''00100000'',
               num_bytes = Some 2, address_end = Some ''00100002''\<rparr>))"
    by (subst process_disable [OF b _ _ c])
       (simp_all add: read4_state_def suppressed_def example_settings_def)
  have "map_sum id snd (decode example_settings read4_state \<lparr>start_time = 2, data = 0\<rparr>) =
       Inr (Some (AnalyzerFrame data_command (Some 1) (Some (200011 / 200000))
              \<lparr>command = Inr ''4-byte READ'', address = Some ''00100000'',
               num_bytes = Some 2, address_end = Some ''00100002''\<rparr>))"
    by (simp add: decode_def de as p cs_of_def del: process.simps(3))
  then show ?thesis using a by (simp add: example_settings_def)
qed

subsection \<open>Steps of the state machine\<close>

lemma detect_start_fresh:
  "burst_start s frame \<Longrightarrow> \<not> p_continuous s \<Longrightarrow>
   detect s frame =
     Inr ((tick s frame)\<lparr>p_transaction := p_transaction s + 1, p_clock_count := 0,
            p_command := Some 0, p_quad_start := None, p_dummy := 0,
            p_mosi_out := 0, p_miso_in := 0\<rparr>,
          (if p_transaction s > 0 then [Disable (p_last_time s)] else []) @ [Enable (start_time frame)])"
  by (simp add: detect_def burst_start_def tick_def Let_def)

lemma detect_start_continuous:
  "burst_start s frame \<Longrightarrow> p_continuous s \<Longrightarrow> p_command s = Some c \<Longrightarrow>
   detect s frame =
     Inr ((tick s frame)\<lparr>p_transaction := p_transaction s + 1, p_clock_count := 8\<rparr>,
          (if p_transaction s > 0 then [Disable (p_last_time s)] else [])
          @ [Enable (start_time frame), Result [c] [0]])"
  by (simp add: detect_def burst_start_def tick_def Let_def)

lemma decode_no_start:
  "\<not> burst_start s frame \<Longrightarrow> cs_of frame \<noteq> 1 \<Longrightarrow>
   decode cfg s frame =
     (case assemble (tick s frame) (data frame) of
        Inl e \<Rightarrow> Inl e
      | Inr (s2, frames2) \<Rightarrow> process_all cfg s2 None frames2)"
  by (auto simp add: decode_def detect_no_start split: sum.splits)

lemma tick_fields [simp]:
  "p_start_time (tick s f) = p_start_time s"
  "p_address_bytes (tick s f) = p_address_bytes s"
  "p_address_format (tick s f) = p_address_format s"
  "p_min_address (tick s f) = p_min_address s"
  "p_max_address (tick s f) = p_max_address s"
  "p_miso_data (tick s f) = p_miso_data s"
  "p_mosi_data (tick s f) = p_mosi_data s"
  "p_empty_result_count (tick s f) = p_empty_result_count s"
  "p_last_cs (tick s f) = p_last_cs s"
  "p_transaction (tick s f) = p_transaction s"
  "p_clock_count (tick s f) = p_clock_count s"
  "p_mosi_out (tick s f) = p_mosi_out s"
  "p_miso_in (tick s f) = p_miso_in s"
  "p_quad_data (tick s f) = p_quad_data s"
  "p_quad_start (tick s f) = p_quad_start s"
  "p_continuous (tick s f) = p_continuous s"
  "p_dummy (tick s f) = p_dummy s"
  "p_command (tick s f) = p_command s"
  "p_last_time (tick s f) = Some (start_time f)"
  "p_fastest_cs (tick s f) = min (diff_of s f * 4) (p_fastest_cs s)"
  by (simp_all add: tick_def)

lemma single_lane_tick [simp]: "single_lane (tick s f) = single_lane s"
  by (simp add: single_lane_def split: option.splits)

lemma assemble_quad_flush:
  assumes "\<not> single_lane s" and "p_clock_count s mod 2 = 1" and "p_command s = Some c"
  shows "assemble s d =
     Inr (s\<lparr>p_quad_data := 0, p_clock_count := p_clock_count s + 1,
            p_continuous :=
              (if (case CONTINUE_COMMANDS c of Some dm \<Rightarrow> True | None \<Rightarrow> False) \<and> p_clock_count s = 15
               then and (or (push_bit 4 (p_quad_data s)) (and d 15)) 0xf0 = 0xa0
               else p_continuous s)\<rparr>,
          [if 15 < p_clock_count s \<and> p_clock_count s \<le> 15 + p_dummy s
           then Result [0] [or (push_bit 4 (p_quad_data s)) (and d 15)]
           else Result [or (push_bit 4 (p_quad_data s)) (and d 15)] [0]])"
  using assms by (simp add: assemble_def Let_def)

lemma process_result_open:
  assumes "p_miso_data s = Some miso" and "p_mosi_data s = Some mosi"
    and "0 \<le> a" "a < 256" "0 \<le> b" "b < 256"
  shows "process cfg s output (Result [a] [b]) =
     Inr (s\<lparr>p_miso_data := Some (miso @ [b]), p_mosi_data := Some (mosi @ [a])\<rparr>, output)"
  using assms by (simp add: extend_def)

lemma decode_quad_flush:
  assumes "\<not> burst_start s frame" and "cs_of frame \<noteq> 1"
    and "\<not> single_lane s" and "p_clock_count s mod 2 = 1" and "p_command s = Some c"
    and "p_miso_data s = Some miso" and "p_mosi_data s = Some mosi"
    and "b = or (push_bit 4 (p_quad_data s)) (and (data frame) 15)"
    and "0 \<le> b" and "b < 256"
  shows "decode cfg s frame =
     Inr ((tick s frame)\<lparr>p_quad_data := 0, p_clock_count := p_clock_count s + 1,
            p_continuous :=
              (if (case CONTINUE_COMMANDS c of Some dm \<Rightarrow> True | None \<Rightarrow> False) \<and> p_clock_count s = 15
               then and b 0xf0 = 0xa0 else p_continuous s),
            p_miso_data :=
              Some (miso @ [if 15 < p_clock_count s \<and> p_clock_count s \<le> 15 + p_dummy s then b else 0]),
            p_mosi_data :=
              Some (mosi @ [if 15 < p_clock_count s \<and> p_clock_count s \<le> 15 + p_dummy s then 0 else b])\<rparr>,
          None)"
proof -
  have a: "assemble (tick s frame) (data frame) =
     Inr ((tick s frame)\<lparr>p_quad_data := 0, p_clock_count := p_clock_count s + 1,
            p_continuous :=
              (if (case CONTINUE_COMMANDS c of Some dm \<Rightarrow> True | None \<Rightarrow> False) \<and> p_clock_count s = 15
               then and b 0xf0 = 0xa0 else p_continuous s)\<rparr>,
          [if 15 < p_clock_count s \<and> p_clock_count s \<le> 15 + p_dummy s
           then Result [0] [b] else Result [b] [0]])"
    using assms(3,4,5,8) by (subst assemble_quad_flush [where c = c]) simp_all
  show ?thesis
    using assms(6,7,9,10)
    by (simp add: decode_no_start [OF assms(1,2)] a process_result_open
          del: process.simps)
qed

lemma quad_byte_range:
  assumes "0 \<le> q" "q < 16"
  shows "0 \<le> or (push_bit 4 q) (and d 15) \<and> or (push_bit 4 q) (and d 15) < (256::int)"
proof -
  have a: "0 \<le> and d 15" by simp
  have b: "and d 15 \<le> 15" by (rule AND_upper2') simp_all
  have c: "0 \<le> push_bit 4 q" "push_bit 4 q < 2 ^ 8" using assms by (simp_all add: push_bit_eq_mult)
  have "or (push_bit 4 q) (and d 15) < 2 ^ 8"
    using c b by (intro OR_upper) simp_all
  then show ?thesis using a c by simp
qed

lemma upper_nibble:
  assumes "0 \<le> b" "b < 256"
  shows "(and b 0xf0 = 0xa0) = (drop_bit 4 b = (10::int))"
proof -
  have m: "(0xf0::int) = push_bit 4 (mask 4)" by (simp add: mask_eq_exp_minus_1 push_bit_eq_mult)
  have r: "0 \<le> drop_bit 4 b" "drop_bit 4 b < 2 ^ 4"
    using assms by (simp_all add: drop_bit_eq_div)
  have "and b 0xf0 = push_bit 4 (and (drop_bit 4 b) (mask 4))"
    unfolding m by (auto simp add: bit_eq_iff bit_simps)
  also have "and (drop_bit 4 b) (mask 4) = drop_bit 4 b"
    using take_bit_int_eq_self [OF r] by (simp add: take_bit_eq_mask)
  finally show ?thesis by (simp add: push_bit_eq_mult)
qed

subsection \<open>Quad-lane bytes\<close>

text \<open>
  C1, as stated, fails in both directions. After the dummy window (edge 21, dummy count 4)
  the flushed byte C3 goes to the host-to-device sequence and 0 to the device-to-host
  sequence; inside the window (edge 17) the flushed byte 07 goes to the device-to-host
  sequence and 0 to the host-to-device sequence.
\<close>

theorem quad_direction_counterexample:
  "15 + p_dummy quad_read_data_state < p_clock_count quad_read_data_state
   \<and> decode example_settings quad_read_data_state \<lparr>start_time = 21 / 1000000, data = 3\<rparr> =
       Inr (quad_read_data_state\<lparr>p_last_time := Some (21 / 1000000), p_clock_count := 22,
              p_quad_data := 0,
              p_miso_data := Some [0, 0, 0, 0, 0, 0, 0, 0],
              p_mosi_data := Some [0xEB, 0x00, 0x10, 0x00, 0xA5, 0x00, 0x00, 0xC3]\<rparr>, None)
   \<and> p_clock_count quad_read_dummy_state \<le> 15 + p_dummy quad_read_dummy_state
   \<and> decode example_settings quad_read_dummy_state \<lparr>start_time = 17 / 1000000, data = 7\<rparr> =
       Inr (quad_read_dummy_state\<lparr>p_last_time := Some (17 / 1000000), p_clock_count := 18,
              p_quad_data := 0,
              p_miso_data := Some [0, 0, 0, 0, 0, 0x07],
              p_mosi_data := Some [0xEB, 0x00, 0x10, 0x00, 0xA5, 0x00]\<rparr>, None)"
  by (simp add: quad_read_data_state_def quad_read_dummy_state_def init_def decode_def detect_def
        diff_of_def cs_of_def assemble_def single_lane_def CONTINUE_COMMANDS_def extend_def Let_def)

text \<open>
  C1, amended. In the quad-lane phase, with an open burst and a nibble in the accumulator,
  the sample of an odd edge flushes the byte \<open>b\<close>: when the edge index is inside the dummy
  window (greater than 15 and at most 15 plus the dummy count), \<open>b\<close> is appended to the
  device-to-host sequence and 0 to the host-to-device sequence; at every other edge index
  (at most 15, or greater than 15 plus the dummy count) \<open>b\<close> is appended to the
  host-to-device sequence and 0 to the device-to-host sequence.
\<close>

theorem quad_flush_direction:
  assumes "\<not> burst_start s frame" and "cs_of frame \<noteq> 1"
    and "p_quad_start s = Some q" and "q \<le> p_clock_count s" and "p_clock_count s mod 2 = 1"
    and "p_command s = Some c"
    and "p_miso_data s = Some miso" and "p_mosi_data s = Some mosi"
    and "0 \<le> p_quad_data s" and "p_quad_data s < 16"
    and "b = or (push_bit 4 (p_quad_data s)) (and (data frame) 15)"
  shows "\<exists>s'. decode cfg s frame = Inr (s', None)
           \<and> p_miso_data s' =
               Some (miso @ [if 15 < p_clock_count s \<and> p_clock_count s \<le> 15 + p_dummy s then b else 0])
           \<and> p_mosi_data s' =
               Some (mosi @ [if 15 < p_clock_count s \<and> p_clock_count s \<le> 15 + p_dummy s then 0 else b])"
proof -
  have q: "\<not> single_lane s" using assms(3,4) by (simp add: single_lane_def)
  have r: "0 \<le> b" "b < 256"
    using quad_byte_range [OF assms(9,10), of "data frame"] assms(11) by simp_all
  show ?thesis
    by (simp add: decode_quad_flush [OF assms(1,2) q assms(5,6,7,8,11) r])
qed

theorem quad_flush_direction_witness:
  "(\<exists>s'. decode example_settings quad_read_data_state \<lparr>start_time = 21 / 1000000, data = 3\<rparr> = Inr (s', None)
        \<and> p_miso_data s' = Some [0, 0, 0, 0, 0, 0, 0, 0]
        \<and> p_mosi_data s' = Some [0xEB, 0x00, 0x10, 0x00, 0xA5, 0x00, 0x00, 0xC3])
   \<and> (\<exists>s'. decode example_settings quad_read_dummy_state \<lparr>start_time = 17 / 1000000, data = 7\<rparr> = Inr (s', None)
        \<and> p_miso_data s' = Some [0, 0, 0, 0, 0, 0x07]
        \<and> p_mosi_data s' = Some [0xEB, 0x00, 0x10, 0x00, 0xA5, 0x00])"
proof -
  let ?f = "\<lparr>start_time = 21 / 1000000, data = 3\<rparr>"
  let ?g = "\<lparr>start_time = 17 / 1000000, data = 7\<rparr>"
  have f: "\<not> burst_start quad_read_data_state ?f" "cs_of ?f \<noteq> 1"
      "p_quad_start quad_read_data_state = Some 8" "8 \<le> p_clock_count quad_read_data_state"
      "p_clock_count quad_read_data_state mod 2 = 1" "p_command quad_read_data_state = Some 0xEB"
      "p_miso_data quad_read_data_state = Some [0, 0, 0, 0, 0, 0, 0]"
      "p_mosi_data quad_read_data_state = Some [0xEB, 0x00, 0x10, 0x00, 0xA5, 0x00, 0x00]"
      "0 \<le> p_quad_data quad_read_data_state" "p_quad_data quad_read_data_state < 16"
      "0xC3 = or (push_bit 4 (p_quad_data quad_read_data_state)) (and (data ?f) 15)"
    by (simp_all add: quad_read_data_state_def init_def burst_start_def diff_of_def cs_of_def)
  have g: "\<not> burst_start quad_read_dummy_state ?g" "cs_of ?g \<noteq> 1"
      "p_quad_start quad_read_dummy_state = Some 8" "8 \<le> p_clock_count quad_read_dummy_state"
      "p_clock_count quad_read_dummy_state mod 2 = 1" "p_command quad_read_dummy_state = Some 0xEB"
      "p_miso_data quad_read_dummy_state = Some [0, 0, 0, 0, 0]"
      "p_mosi_data quad_read_dummy_state = Some [0xEB, 0x00, 0x10, 0x00, 0xA5]"
      "0 \<le> p_quad_data quad_read_dummy_state" "p_quad_data quad_read_dummy_state < 16"
      "0x07 = or (push_bit 4 (p_quad_data quad_read_dummy_state)) (and (data ?g) 15)"
    by (simp_all add: quad_read_dummy_state_def init_def burst_start_def diff_of_def cs_of_def)
  have v: "p_clock_count quad_read_data_state = 21" "p_dummy quad_read_data_state = 4"
      "p_clock_count quad_read_dummy_state = 17" "p_dummy quad_read_dummy_state = 4"
    by (simp_all add: quad_read_data_state_def quad_read_dummy_state_def)
  show ?thesis
    using quad_flush_direction [OF f, of example_settings] quad_flush_direction [OF g, of example_settings]
    by (simp add: v)
qed

subsection \<open>Continuous mode\<close>

lemma classify_state:
  "\<exists>ft fd ab af. classify cfg s mosi = (ft, fd, s\<lparr>p_address_bytes := ab, p_address_format := af\<rparr>)"
proof -
  have s: "s = s\<lparr>p_address_bytes := p_address_bytes s, p_address_format := p_address_format s\<rparr>"
    by simp
  show ?thesis
  proof (cases "DATA_COMMANDS (mosi ! 0)")
    case (Some name)
    then have "\<exists>ft fd. classify cfg s mosi = (ft, fd, s)"
      by (simp add: classify_def Let_def)
    then show ?thesis using s by metis
  next
    case None
    show ?thesis
    proof (cases "mosi ! 0 = EN4B")
      case True
      then show ?thesis using None by (simp add: classify_def Let_def) (intro exI, rule refl)
    next
      case False
      show ?thesis
      proof (cases "mosi ! 0 = EX4B")
        case True
        then show ?thesis using None False by (simp add: classify_def Let_def) (intro exI, rule refl)
      next
        case f2: False
        have "\<exists>ft fd. classify cfg s mosi = (ft, fd, s)"
          using None False f2 by (simp add: classify_def Let_def)
        then show ?thesis using s by metis
      qed
    qed
  qed
qed

lemma process_disable_state:
  "\<exists>ab af mi mo out'. process cfg s out (Disable e) =
     Inr (s\<lparr>p_address_bytes := ab, p_address_format := af, p_miso_data := mi, p_mosi_data := mo\<rparr>, out')"
proof -
  have s: "s = s\<lparr>p_address_bytes := p_address_bytes s, p_address_format := p_address_format s,
                 p_miso_data := p_miso_data s, p_mosi_data := p_mosi_data s\<rparr>"
    by simp
  show ?thesis
  proof (cases "\<exists>miso mosi. p_miso_data s = Some miso \<and> p_mosi_data s = Some mosi
                  \<and> miso \<noteq> [] \<and> mosi \<noteq> []")
    case False
    then have "process cfg s out (Disable e) = Inr (s, out)"
      by (cases "p_miso_data s"; cases "p_mosi_data s") auto
    then show ?thesis using s by metis
  next
    case True
    then obtain miso mosi where opened: "p_miso_data s = Some miso" "p_mosi_data s = Some mosi"
        "miso \<noteq> []" "mosi \<noteq> []"
      by blast
    obtain ft fd ab af where c: "classify cfg s mosi = (ft, fd, s\<lparr>p_address_bytes := ab, p_address_format := af\<rparr>)"
      using classify_state by blast
    show ?thesis
      unfolding process_disable [OF opened c] by simp blast
  qed
qed

lemma assemble_quad_hold:
  assumes "\<not> single_lane s" and "p_clock_count s mod 2 \<noteq> 1"
  shows "assemble s d =
     Inr (s\<lparr>p_quad_data := or (push_bit 4 (p_quad_data s)) (and d 15),
            p_clock_count := p_clock_count s + 1\<rparr>, [])"
  using assms by (simp add: assemble_def Let_def)

lemma decode_start_continuous:
  assumes "burst_start s frame" and "p_continuous s" and "p_command s = Some c"
    and "0 \<le> c" and "c < 256" and "p_quad_start s = Some 8"
  shows "\<exists>ab af out. decode cfg s frame =
     Inr ((tick s frame)\<lparr>p_transaction := p_transaction s + 1, p_clock_count := 9,
            p_quad_data := or (push_bit 4 (p_quad_data s)) (and (data frame) 15),
            p_address_bytes := ab, p_address_format := af,
            p_start_time := Some (start_time frame),
            p_miso_data := Some [0], p_mosi_data := Some [c]\<rparr>, out)"
proof -
  let ?s1 = "(tick s frame)\<lparr>p_transaction := p_transaction s + 1, p_clock_count := 8\<rparr>"
  let ?s2 = "?s1\<lparr>p_quad_data := or (push_bit 4 (p_quad_data s)) (and (data frame) 15),
                 p_clock_count := 9\<rparr>"
  let ?tail = "[Enable (start_time frame), Result [c] [0]]"
  have cs: "cs_of frame \<noteq> 1" using assms(1) by (simp add: burst_start_def)
  have q: "\<not> single_lane ?s1" using assms(6) by (simp add: single_lane_def)
  have a: "assemble ?s1 (data frame) = Inr (?s2, [])"
    using assemble_quad_hold [OF q, of "data frame"] by simp
  have t: "process_all cfg s' out ?tail =
      Inr (s'\<lparr>p_start_time := Some (start_time frame), p_miso_data := Some [0], p_mosi_data := Some [c]\<rparr>, out)"
    for s' out
    using assms(4,5) by (simp add: extend_def)
  show ?thesis
  proof (cases "p_transaction s > 0")
    case False
    have d: "decode cfg s frame = process_all cfg ?s2 None ?tail"
      using False cs by (simp add: decode_def detect_start_continuous [OF assms(1,2,3)] a del: process_all.simps)
    show ?thesis
      unfolding d t
      by (rule exI [of _ "p_address_bytes s"], rule exI [of _ "p_address_format s"],
          rule exI [of _ None]) simp
  next
    case True
    have d: "decode cfg s frame = process_all cfg ?s2 None (Disable (p_last_time s) # ?tail)"
      using True cs by (simp add: decode_def detect_start_continuous [OF assms(1,2,3)] a del: process_all.simps)
    obtain ab af mi mo out' where p: "process cfg ?s2 None (Disable (p_last_time s)) =
       Inr (?s2\<lparr>p_address_bytes := ab, p_address_format := af, p_miso_data := mi, p_mosi_data := mo\<rparr>, out')"
      using process_disable_state by blast
    have "decode cfg s frame =
       Inr (?s2\<lparr>p_address_bytes := ab, p_address_format := af, p_miso_data := mi, p_mosi_data := mo,
              p_start_time := Some (start_time frame), p_miso_data := Some [0], p_mosi_data := Some [c]\<rparr>, out')"
      unfolding d process_all.simps(2) [of cfg ?s2 None "Disable (p_last_time s)"] p
      by (simp only: sum.case prod.case t)
    then show ?thesis
      by (intro exI [of _ ab] exI [of _ af] exI [of _ out']) simp
  qed
qed

text \<open>
  C4. In the burst of a continuation opcode (6b, e7 or eb), the sample of edge 15 in the
  quad-lane phase flushes the byte \<open>b\<close> and leaves the continuous flag true exactly when
  the upper nibble of \<open>b\<close> is A. When the flag is set at a burst start, the boundary
  detector leaves the clock count at 8 and ends its events with "enable" and the synthetic
  result (the stored opcode, 0); after the call the buffers hold exactly that pair, the
  clock count is 9 (this sample's edge is counted), and the opcode, quad-switch
  threshold, dummy count and the two bit accumulators are those of the decoder before.
\<close>

theorem continuous_mode:
  "(\<not> burst_start s frame \<and> cs_of frame \<noteq> 1
      \<and> p_quad_start s = Some 8 \<and> p_clock_count s = 15
      \<and> p_command s = Some c \<and> (c = 0x6b \<or> c = 0xe7 \<or> c = 0xeb)
      \<and> p_miso_data s = Some miso \<and> p_mosi_data s = Some mosi
      \<and> 0 \<le> p_quad_data s \<and> p_quad_data s < 16
      \<and> b = or (push_bit 4 (p_quad_data s)) (and (data frame) 15)
     \<longrightarrow> (\<exists>s'. decode cfg s frame = Inr (s', None) \<and> p_continuous s' = (drop_bit 4 b = 0xA)))
   \<and> (burst_start s frame \<and> p_continuous s
      \<and> p_command s = Some c \<and> 0 \<le> c \<and> c < 256 \<and> p_quad_start s = Some 8
     \<longrightarrow> (\<exists>s1 pre. detect s frame = Inr (s1, pre @ [Enable (start_time frame), Result [c] [0]])
                   \<and> p_clock_count s1 = 8)
         \<and> (\<exists>ab af out. decode cfg s frame =
               Inr ((tick s frame)\<lparr>p_transaction := p_transaction s + 1, p_clock_count := 9,
                      p_quad_data := or (push_bit 4 (p_quad_data s)) (and (data frame) 15),
                      p_address_bytes := ab, p_address_format := af,
                      p_start_time := Some (start_time frame),
                      p_miso_data := Some [0], p_mosi_data := Some [c]\<rparr>, out)))"
proof (intro conjI impI)
  assume h: "\<not> burst_start s frame \<and> cs_of frame \<noteq> 1
      \<and> p_quad_start s = Some 8 \<and> p_clock_count s = 15
      \<and> p_command s = Some c \<and> (c = 0x6b \<or> c = 0xe7 \<or> c = 0xeb)
      \<and> p_miso_data s = Some miso \<and> p_mosi_data s = Some mosi
      \<and> 0 \<le> p_quad_data s \<and> p_quad_data s < 16
      \<and> b = or (push_bit 4 (p_quad_data s)) (and (data frame) 15)"
  then have q: "\<not> single_lane s" and o: "p_clock_count s mod 2 = 1"
    by (simp_all add: single_lane_def)
  have r: "0 \<le> b" "b < 256"
    using quad_byte_range [of "p_quad_data s" "data frame"] h by simp_all
  have k: "(case CONTINUE_COMMANDS c of Some dm \<Rightarrow> True | None \<Rightarrow> False)"
    using h by (auto simp: CONTINUE_COMMANDS_def)
  from h have h': "\<not> burst_start s frame" "cs_of frame \<noteq> 1" "p_command s = Some c"
      "p_miso_data s = Some miso" "p_mosi_data s = Some mosi"
      "b = or (push_bit 4 (p_quad_data s)) (and (data frame) 15)" "p_clock_count s = 15"
    by simp_all
  show "\<exists>s'. decode cfg s frame = Inr (s', None) \<and> p_continuous s' = (drop_bit 4 b = 0xA)"
    using k h'(7) upper_nibble [OF r]
    by (simp add: decode_quad_flush [OF h'(1,2) q o h'(3,4,5,6) r])
next
  assume h: "burst_start s frame \<and> p_continuous s
      \<and> p_command s = Some c \<and> 0 \<le> c \<and> c < 256 \<and> p_quad_start s = Some 8"
  then have h': "burst_start s frame" "p_continuous s" "p_command s = Some c"
      "0 \<le> c" "c < 256" "p_quad_start s = Some 8"
    by simp_all
  show "\<exists>s1 pre. detect s frame = Inr (s1, pre @ [Enable (start_time frame), Result [c] [0]])
                   \<and> p_clock_count s1 = 8"
    unfolding detect_start_continuous [OF h'(1,2,3)] by simp
  show "\<exists>ab af out. decode cfg s frame =
               Inr ((tick s frame)\<lparr>p_transaction := p_transaction s + 1, p_clock_count := 9,
                      p_quad_data := or (push_bit 4 (p_quad_data s)) (and (data frame) 15),
                      p_address_bytes := ab, p_address_format := af,
                      p_start_time := Some (start_time frame),
                      p_miso_data := Some [0], p_mosi_data := Some [c]\<rparr>, out)"
    by (rule decode_start_continuous [OF h'])
qed

theorem continuous_mode_witness:
  "(\<exists>s'. decode example_settings quad_read_mode_state \<lparr>start_time = 15 / 1000000, data = 5\<rparr> = Inr (s', None)
        \<and> p_continuous s' = True)
   \<and> (\<exists>s'. decode example_settings quad_read_mode_state \<lparr>start_time = 15 / 1000000, data = 0xF\<rparr> = Inr (s', None)
        \<and> p_continuous s' = True)
   \<and> (\<exists>s1 pre. detect quad_read_data_state \<lparr>start_time = 1, data = 0\<rparr> =
          Inr (s1, pre @ [Enable 1, Result [0xEB] [0]]) \<and> p_clock_count s1 = 8)
   \<and> (\<exists>ab af out. decode example_settings quad_read_data_state \<lparr>start_time = 1, data = 0\<rparr> =
          Inr (quad_read_data_state\<lparr>p_last_time := Some 1, p_transaction := 2, p_clock_count := 9,
                 p_quad_data := 0xC0, p_address_bytes := ab, p_address_format := af,
                 p_start_time := Some 1, p_miso_data := Some [0], p_mosi_data := Some [0xEB]\<rparr>, out))"
proof -
  let ?f = "\<lparr>start_time = 15 / 1000000, data = 5\<rparr>"
  let ?f' = "\<lparr>start_time = 15 / 1000000, data = 0xF\<rparr>"
  let ?g = "\<lparr>start_time = 1, data = 0\<rparr>"
  have f: "\<not> burst_start quad_read_mode_state ?f \<and> cs_of ?f \<noteq> 1
      \<and> p_quad_start quad_read_mode_state = Some 8 \<and> p_clock_count quad_read_mode_state = 15
      \<and> p_command quad_read_mode_state = Some 0xeb \<and> (0xeb = 0x6b \<or> 0xeb = 0xe7 \<or> 0xeb = (0xeb::int))
      \<and> p_miso_data quad_read_mode_state = Some [0, 0, 0, 0]
      \<and> p_mosi_data quad_read_mode_state = Some [0xEB, 0x00, 0x10, 0x00]
      \<and> 0 \<le> p_quad_data quad_read_mode_state \<and> p_quad_data quad_read_mode_state < 16
      \<and> 0xA5 = or (push_bit 4 (p_quad_data quad_read_mode_state)) (and (data ?f) 15)"
    by (simp add: quad_read_mode_state_def init_def burst_start_def diff_of_def cs_of_def)
  have f': "\<not> burst_start quad_read_mode_state ?f' \<and> cs_of ?f' \<noteq> 1
      \<and> p_quad_start quad_read_mode_state = Some 8 \<and> p_clock_count quad_read_mode_state = 15
      \<and> p_command quad_read_mode_state = Some 0xeb \<and> (0xeb = 0x6b \<or> 0xeb = 0xe7 \<or> 0xeb = (0xeb::int))
      \<and> p_miso_data quad_read_mode_state = Some [0, 0, 0, 0]
      \<and> p_mosi_data quad_read_mode_state = Some [0xEB, 0x00, 0x10, 0x00]
      \<and> 0 \<le> p_quad_data quad_read_mode_state \<and> p_quad_data quad_read_mode_state < 16
      \<and> 0xAF = or (push_bit 4 (p_quad_data quad_read_mode_state)) (and (data ?f') 15)"
    by (simp add: quad_read_mode_state_def init_def burst_start_def diff_of_def cs_of_def)
  have g: "burst_start quad_read_data_state ?g \<and> p_continuous quad_read_data_state
      \<and> p_command quad_read_data_state = Some 0xEB \<and> 0 \<le> (0xEB::int) \<and> (0xEB::int) < 256
      \<and> p_quad_start quad_read_data_state = Some 8"
    by (simp add: quad_read_data_state_def init_def burst_start_def diff_of_def cs_of_def)
  have n: "drop_bit 4 (0xA5::int) = 0xA" "drop_bit 4 (0xAF::int) = 0xA"
    by (simp_all add: drop_bit_eq_div)
  have t: "(tick quad_read_data_state ?g)\<lparr>p_transaction := p_transaction quad_read_data_state + 1,
        p_clock_count := 9,
        p_quad_data := or (push_bit 4 (p_quad_data quad_read_data_state)) (and (data ?g) 15),
        p_address_bytes := ab, p_address_format := af, p_start_time := Some (start_time ?g),
        p_miso_data := Some [0], p_mosi_data := Some [0xEB]\<rparr>
      = quad_read_data_state\<lparr>p_last_time := Some 1, p_transaction := 2, p_clock_count := 9,
                 p_quad_data := 0xC0, p_address_bytes := ab, p_address_format := af,
                 p_start_time := Some 1, p_miso_data := Some [0], p_mosi_data := Some [0xEB]\<rparr>" for ab af
    by (simp add: tick_def quad_read_data_state_def init_def diff_of_def)
  note w1 = continuous_mode [THEN conjunct1, rule_format, OF f, of example_settings]
  note w2 = continuous_mode [THEN conjunct1, rule_format, OF f', of example_settings]
  note w3 = continuous_mode [THEN conjunct2, rule_format, OF g, of example_settings]
  from w1 w2 w3 show ?thesis
    unfolding n t by simp
qed

subsection \<open>The two buffers\<close>

lemma detect_shape:
  assumes "detect s f = Inr (s1, fr)"
  shows "p_miso_data s1 = p_miso_data s \<and> p_mosi_data s1 = p_mosi_data s
         \<and> list_all balanced fr
         \<and> (list_all (\<lambda>x. \<not> is_disable x) fr
             \<or> (\<exists>l rest. fr = Disable l # rest \<and> list_all (\<lambda>x. \<not> is_disable x) rest))"
proof (cases "burst_start s f")
  case False
  then show ?thesis using assms by (auto simp: detect_no_start)
next
  case True
  show ?thesis
  proof (cases "p_continuous s")
    case False
    have e: "s1 = (tick s f)\<lparr>p_transaction := p_transaction s + 1, p_clock_count := 0,
            p_command := Some 0, p_quad_start := None, p_dummy := 0,
            p_mosi_out := 0, p_miso_in := 0\<rparr>"
      "fr = (if p_transaction s > 0 then [Disable (p_last_time s)] else []) @ [Enable (start_time f)]"
      using assms unfolding detect_start_fresh [OF True False] by simp_all
    show ?thesis
      unfolding e by (simp add: balanced_def is_disable_def)
  next
    case c: True
    show ?thesis
    proof (cases "p_command s")
      case None
      have "\<exists>x. detect s f = Inl x"
        using True c None by (simp add: detect_def burst_start_def Let_def)
      then show ?thesis using assms by simp
    next
      case (Some a)
      have e: "s1 = (tick s f)\<lparr>p_transaction := p_transaction s + 1, p_clock_count := 8\<rparr>"
        "fr = (if p_transaction s > 0 then [Disable (p_last_time s)] else [])
          @ [Enable (start_time f), Result [a] [0]]"
        using assms unfolding detect_start_continuous [OF True c Some] by simp_all
      show ?thesis
        unfolding e by (simp add: balanced_def is_disable_def)
    qed
  qed
qed

lemma assemble_shape:
  assumes "assemble s d = Inr (s2, fr)"
  shows "p_miso_data s2 = p_miso_data s \<and> p_mosi_data s2 = p_mosi_data s
         \<and> list_all balanced fr \<and> list_all (\<lambda>x. \<not> is_disable x) fr"
  using assms
  by (auto simp: assemble_def Let_def balanced_def is_disable_def
      split: if_splits option.splits)

lemma process_aligned:
  assumes "balanced f" and "buffers_aligned s" and "process cfg s out f = Inr (s', out')"
  shows "buffers_aligned s'"
proof (cases f)
  case (Enable t)
  then show ?thesis using assms by (auto simp: buffers_aligned_def)
next
  case (Result mosi miso)
  then show ?thesis
    using assms
    by (auto simp: buffers_aligned_def balanced_def extend_def split: option.splits if_splits)
next
  case (Disable e)
  obtain ab af mi mo out'' where p: "process cfg s out (Disable e) =
     Inr (s\<lparr>p_address_bytes := ab, p_address_format := af, p_miso_data := mi, p_mosi_data := mo\<rparr>, out'')"
    using process_disable_state by blast
  show ?thesis
  proof (cases "\<exists>miso mosi. p_miso_data s = Some miso \<and> p_mosi_data s = Some mosi
                  \<and> miso \<noteq> [] \<and> mosi \<noteq> []")
    case False
    then have "process cfg s out (Disable e) = Inr (s, out)"
      by (cases "p_miso_data s"; cases "p_mosi_data s") auto
    then show ?thesis using assms Disable by simp
  next
    case True
    then obtain miso mosi where opened: "p_miso_data s = Some miso" "p_mosi_data s = Some mosi"
        "miso \<noteq> []" "mosi \<noteq> []"
      by blast
    obtain ft fd s1 where c: "classify cfg s mosi = (ft, fd, s1)"
      by (cases "classify cfg s mosi") auto
    show ?thesis
      using assms(3) Disable process_disable [OF opened c, of out e]
      by (auto simp: buffers_aligned_def)
  qed
qed

lemma process_output:
  assumes "process cfg s out f = Inr (s', out')" and "out' \<noteq> out"
  shows "\<exists>e miso mosi. f = Disable e \<and> p_miso_data s = Some miso \<and> p_mosi_data s = Some mosi
            \<and> miso \<noteq> [] \<and> mosi \<noteq> []"
proof (cases f)
  case (Enable t)
  then show ?thesis using assms by auto
next
  case (Result mosi miso)
  then show ?thesis
    using assms by (auto split: option.splits sum.splits)
next
  case (Disable e)
  show ?thesis
  proof (cases "\<exists>miso mosi. p_miso_data s = Some miso \<and> p_mosi_data s = Some mosi
                  \<and> miso \<noteq> [] \<and> mosi \<noteq> []")
    case False
    then have "process cfg s out (Disable e) = Inr (s, out)"
      by (cases "p_miso_data s"; cases "p_mosi_data s") auto
    then show ?thesis using assms Disable by simp
  next
    case True
    then show ?thesis using Disable by blast
  qed
qed

lemma aligned_cong:
  "p_miso_data a = p_miso_data b \<Longrightarrow> p_mosi_data a = p_mosi_data b \<Longrightarrow>
   buffers_aligned a = buffers_aligned b"
  by (simp add: buffers_aligned_def split: option.splits)

lemma process_all_aligned:
  "list_all balanced fs \<Longrightarrow> buffers_aligned s \<Longrightarrow> process_all cfg s out fs = Inr (s', out') \<Longrightarrow>
   buffers_aligned s'"
proof (induction fs arbitrary: s out)
  case Nil
  then show ?case by simp
next
  case (Cons f fs)
  from Cons.prems(3) obtain s1 out1 where
    p: "process cfg s out f = Inr (s1, out1)" and r: "process_all cfg s1 out1 fs = Inr (s', out')"
    by (auto split: sum.splits)
  have "buffers_aligned s1"
    using process_aligned [OF _ Cons.prems(2) p] Cons.prems(1) by simp
  then show ?case using Cons.IH [OF _ _ r] Cons.prems(1) by simp
qed

lemma process_all_no_disable:
  "list_all (\<lambda>x. \<not> is_disable x) fs \<Longrightarrow> process_all cfg s out fs = Inr (s', out') \<Longrightarrow> out' = out"
proof (induction fs arbitrary: s out)
  case Nil
  then show ?case by simp
next
  case (Cons f fs)
  from Cons.prems(2) obtain s1 out1 where
    p: "process cfg s out f = Inr (s1, out1)" and r: "process_all cfg s1 out1 fs = Inr (s', out')"
    by (auto split: sum.splits)
  have "out1 = out"
    using process_output [OF p] Cons.prems(1) by (cases "out1 = out") (auto simp: is_disable_def)
  then show ?case using Cons.IH [OF _ r] Cons.prems(1) by simp
qed

lemma decode_aligned:
  assumes "buffers_aligned s" and "decode cfg s f = Inr (s', out)"
  shows "buffers_aligned s'"
proof -
  obtain s1 fr1 where d: "detect s f = Inr (s1, fr1)"
    using assms(2) by (auto simp: decode_def split: sum.splits)
  note sh1 = detect_shape [OF d]
  have a1: "buffers_aligned s1" using sh1 assms(1) aligned_cong [of s1 s] by simp
  show ?thesis
  proof (cases "cs_of f = 1")
    case True
    then show ?thesis using assms(2) d a1 by (simp add: decode_def)
  next
    case False
    then obtain s2 fr2 where a: "assemble s1 (data f) = Inr (s2, fr2)"
      and p: "process_all cfg s2 None (fr1 @ fr2) = Inr (s', out)"
      using assms(2) d by (auto simp: decode_def split: sum.splits)
    note sh2 = assemble_shape [OF a]
    have a2: "buffers_aligned s2" using sh2 a1 aligned_cong [of s2 s1] by simp
    have "list_all balanced (fr1 @ fr2)" using sh1 sh2 by simp
    from process_all_aligned [OF this a2 p] show ?thesis .
  qed
qed

lemma decode_output:
  assumes "decode cfg s f = Inr (s', Some r)"
  shows "\<exists>miso mosi. p_miso_data s = Some miso \<and> p_mosi_data s = Some mosi
            \<and> miso \<noteq> [] \<and> mosi \<noteq> []"
proof -
  obtain s1 fr1 where d: "detect s f = Inr (s1, fr1)"
    using assms by (auto simp: decode_def split: sum.splits)
  note sh1 = detect_shape [OF d]
  have cs: "cs_of f \<noteq> 1" using assms d by (auto simp: decode_def)
  then obtain s2 fr2 where a: "assemble s1 (data f) = Inr (s2, fr2)"
    and p: "process_all cfg s2 None (fr1 @ fr2) = Inr (s', Some r)"
    using assms d by (auto simp: decode_def split: sum.splits)
  note sh2 = assemble_shape [OF a]
  have "\<not> list_all (\<lambda>x. \<not> is_disable x) (fr1 @ fr2)"
    using process_all_no_disable [OF _ p] by auto
  then obtain l rest where fr: "fr1 = Disable l # rest" "list_all (\<lambda>x. \<not> is_disable x) rest"
    using sh1 sh2 by auto
  from p fr obtain s3 out3 where
    p1: "process cfg s2 None (Disable l) = Inr (s3, out3)"
    and p2: "process_all cfg s3 out3 (rest @ fr2) = Inr (s', Some r)"
    by (auto split: sum.splits)
  have "out3 = Some r"
    using process_all_no_disable [OF _ p2] fr(2) sh2 by simp
  then have "out3 \<noteq> None" by simp
  from process_output [OF p1 this] show ?thesis using sh1 sh2 by simp
qed

lemma run_aligned:
  "buffers_aligned s \<Longrightarrow> run cfg s fs = Inr (s', outs) \<Longrightarrow> buffers_aligned s'"
proof (induction fs arbitrary: s outs)
  case Nil
  then show ?case by simp
next
  case (Cons f fs)
  from Cons.prems(2) obtain s1 out1 outs1 where
    d: "decode cfg s f = Inr (s1, out1)" and r: "run cfg s1 fs = Inr (s', outs1)"
    by (auto split: sum.splits)
  from Cons.IH [OF decode_aligned [OF Cons.prems(1) d] r] show ?case .
qed

text \<open>
  For the calls that return: the two buffers of a new decoder are aligned (both absent, or
  both present with the same length), a call that returns keeps them aligned, and it
  returns a record only when, before the call, both buffers were present, non-empty and
  of the same length.
\<close>

lemma buffers_aligned_returning:
  "buffers_aligned (init cfg)
   \<and> (buffers_aligned s \<and> decode cfg s frame = Inr (s', out) \<longrightarrow>
        buffers_aligned s'
        \<and> (out \<noteq> None \<longrightarrow>
             (\<exists>miso mosi. p_miso_data s = Some miso \<and> p_mosi_data s = Some mosi
                 \<and> miso \<noteq> [] \<and> mosi \<noteq> [] \<and> length miso = length mosi)))
   \<and> (run cfg (init cfg) frames = Inr (s_n, outs) \<longrightarrow> buffers_aligned s_n)"
proof (intro conjI impI)
  show i: "buffers_aligned (init cfg)"
    by (simp add: buffers_aligned_def init_def)
  show "buffers_aligned s_n" if "run cfg (init cfg) frames = Inr (s_n, outs)"
    using run_aligned [OF i that] .
next
  assume h: "buffers_aligned s \<and> decode cfg s frame = Inr (s', out)"
  then show "buffers_aligned s'" using decode_aligned by blast
  assume "out \<noteq> None"
  then obtain r where "out = Some r" by auto
  with h have "decode cfg s frame = Inr (s', Some r)" by simp
  from decode_output [OF this] obtain miso mosi where
    b: "p_miso_data s = Some miso" "p_mosi_data s = Some mosi" "miso \<noteq> []" "mosi \<noteq> []"
    by blast
  with h have "length miso = length mosi" by (simp add: buffers_aligned_def)
  with b show "\<exists>miso mosi. p_miso_data s = Some miso \<and> p_mosi_data s = Some mosi
                 \<and> miso \<noteq> [] \<and> mosi \<noteq> [] \<and> length miso = length mosi"
    by blast
qed

lemma run_append:
  "run cfg s (xs @ ys) =
     (case run cfg s xs of
        Inl e \<Rightarrow> Inl e
      | Inr (s1, o1) \<Rightarrow>
          (case run cfg s1 ys of Inl e \<Rightarrow> Inl e | Inr (s2, o2) \<Rightarrow> Inr (s2, o1 @ o2)))"
  by (induction xs arbitrary: s) (auto split: sum.splits)

text \<open>
  C8: a call that raises breaks the alignment. Lines 131 and 132 clear the two bit
  accumulators at a burst start, but nothing clears \<open>_quad_data\<close>: a quad burst that ends
  on an even edge leaves a nibble behind, and the first quad flush of the next
  continuation burst is then wider than a byte. Line 193 has appended 0 to \<open>_miso_data\<close>
  when line 194 raises ValueError. On the trace below (a burst EB with the nibbles 1, 2, 3,
  then a burst EB with the nibbles 4, 5, one edge per microsecond) the flushed value is
  0x345, and the decoder is left with an open burst whose device sequence has two bytes
  and whose host sequence has one.
\<close>

theorem stale_nibble_breaks_alignment:
  "run example_settings (init example_settings)
     (clock 0 (1 / 1000000) [1, 1, 1, 0, 1, 0, 1, 1, 1, 2, 3]
      @ clock 1 (1 / 1000000) [1, 1, 1, 0, 1, 0, 1, 1, 4, 5]) =
     Inl (ValueError,
          (init example_settings)\<lparr>p_start_time := Some 1,
            p_miso_data := Some [0, 0], p_mosi_data := Some [0xEB],
            p_last_time := Some (1000009 / 1000000), p_transaction := 2, p_clock_count := 10,
            p_quad_start := Some 8, p_dummy := 4, p_fastest_cs := 4000, p_command := Some 0xEB\<rparr>)
   \<and> \<not> buffers_aligned
        ((init example_settings)\<lparr>p_start_time := Some 1,
            p_miso_data := Some [0, 0], p_mosi_data := Some [0xEB],
            p_last_time := Some (1000009 / 1000000), p_transaction := 2, p_clock_count := 10,
            p_quad_start := Some 8, p_dummy := 4, p_fastest_cs := 4000, p_command := Some 0xEB\<rparr>)"
proof -
  let ?cfg = example_settings
  let ?c1 = "clock 0 (1 / 1000000) [1, 1, 1, 0, 1, 0]"
  let ?c2 = "clock (6 / 1000000) (1 / 1000000) [1, 1, 1, 2, 3]"
  let ?c3 = "clock 1 (1 / 1000000) [1, 1, 1, 0, 1]"
  let ?c4 = "clock (1000005 / 1000000) (1 / 1000000) [0, 1, 1, 4, 5]"
  let ?sA = "(init ?cfg)\<lparr>p_start_time := Some 0, p_miso_data := Some [], p_mosi_data := Some [],
      p_last_time := Some (1 / 200000), p_transaction := 1, p_clock_count := 6, p_mosi_out := 58,
      p_fastest_cs := 4000, p_command := Some 0\<rparr>"
  let ?sB = "(init ?cfg)\<lparr>p_start_time := Some 0, p_miso_data := Some [0, 0],
      p_mosi_data := Some [0xEB, 0x12],
      p_last_time := Some (1 / 100000), p_transaction := 1, p_clock_count := 11, p_quad_data := 3,
      p_quad_start := Some 8, p_dummy := 4, p_fastest_cs := 4000, p_command := Some 0xEB\<rparr>"
  let ?sC = "(init ?cfg)\<lparr>p_start_time := Some 1, p_miso_data := Some [], p_mosi_data := Some [],
      p_last_time := Some (250001 / 250000), p_transaction := 2, p_clock_count := 5,
      p_mosi_out := 29, p_quad_data := 3, p_fastest_cs := 4000, p_command := Some 0\<rparr>"
  let ?sD = "(init ?cfg)\<lparr>p_start_time := Some 1,
            p_miso_data := Some [0, 0], p_mosi_data := Some [0xEB],
            p_last_time := Some (1000009 / 1000000), p_transaction := 2, p_clock_count := 10,
            p_quad_start := Some 8, p_dummy := 4, p_fastest_cs := 4000, p_command := Some 0xEB\<rparr>"
  let ?r = "AnalyzerFrame error (Some 0) (Some (1 / 100000))
              \<lparr>command = Inl 0xEB, address = None, num_bytes = None, address_end = None\<rparr>"
  have a: "run ?cfg (init ?cfg) ?c1 = Inr (?sA, [None, None, None, None, None, None])"
    by code_simp
  have b: "run ?cfg ?sA ?c2 = Inr (?sB, [None, None, None, None, None])"
    by code_simp
  have c: "run ?cfg ?sB ?c3 = Inr (?sC, [Some ?r, None, None, None, None])"
    by code_simp
  have d: "run ?cfg ?sC ?c4 = Inl (ValueError, ?sD)"
    by code_simp
  have t: "clock 0 (1 / 1000000) [1, 1, 1, 0, 1, 0, 1, 1, 1, 2, 3]
      @ clock 1 (1 / 1000000) [1, 1, 1, 0, 1, 0, 1, 1, 4, 5] = ?c1 @ ?c2 @ ?c3 @ ?c4"
    by simp
  have "run ?cfg (init ?cfg) (?c1 @ ?c2 @ ?c3 @ ?c4) = Inl (ValueError, ?sD)"
    by (simp only: run_append a b c d sum.case prod.case)
  moreover have "\<not> buffers_aligned ?sD"
    by (simp add: buffers_aligned_def)
  ultimately show ?thesis unfolding t by simp
qed

subsection \<open>Single-lane assembly\<close>

lemma pack_bits:
  "pack acc (map (\<lambda>i. and (drop_bit i b) 1) (rev [0..<n])) = or (push_bit n acc) (take_bit n b)"
proof (induction n arbitrary: acc)
  case 0
  then show ?case by simp
next
  case (Suc n)
  have "or (push_bit n (and (drop_bit n b) 1)) (take_bit n b) = take_bit (Suc n) b"
    by (rule bit_eqI) (auto simp add: bit_simps less_Suc_eq)
  then have "or (push_bit n (or (push_bit 1 acc) (and (drop_bit n b) 1))) (take_bit n b)
      = or (push_bit (Suc n) acc) (take_bit (Suc n) b)"
    by (simp add: push_bit_or or.assoc push_bit_push_bit del: take_bit_Suc push_bit_Suc)
  then show ?case using Suc.IH by simp
qed

lemma pack_bits_msb:
  assumes "0 \<le> b" "b < 256"
  shows "pack 0 (bits_msb b) = b"
proof -
  have "take_bit 8 b = b" using assms by (intro take_bit_int_eq_self) simp_all
  then show ?thesis by (simp add: bits_msb_def pack_bits)
qed

lemma pack_range:
  "0 \<le> acc \<Longrightarrow> acc < 2 ^ j \<Longrightarrow> list_all (\<lambda>b. b = 0 \<or> b = 1) bs \<Longrightarrow>
   0 \<le> pack acc bs \<and> pack acc bs < 2 ^ (j + length bs)"
proof (induction bs arbitrary: acc j)
  case Nil
  then show ?case by simp
next
  case (Cons b bs)
  have b: "0 \<le> b" "b < 2 ^ Suc j" using Cons.prems(3) by (auto intro: less_le_trans [of _ 2])
  have p: "0 \<le> push_bit 1 acc" "push_bit 1 acc < 2 ^ Suc j"
    using Cons.prems(1,2) by (simp_all add: push_bit_eq_mult)
  have "or (push_bit 1 acc) b < 2 ^ Suc j"
    by (rule OR_upper [OF p b(2)])
  moreover have "0 \<le> or (push_bit 1 acc) b" using p(1) b(1) by simp
  ultimately show ?case using Cons.IH [of "or (push_bit 1 acc) b" "Suc j"] Cons.prems(3) by simp
qed

lemma decode_single_hold:
  assumes "\<not> burst_start s f" and "cs_of f \<noteq> 1" and "p_quad_start s = None"
    and "p_clock_count s mod 8 \<noteq> 7"
  shows "decode cfg s f =
     Inr ((tick s f)\<lparr>p_mosi_out := or (push_bit 1 (p_mosi_out s)) (and (data f) 1),
            p_miso_in := or (push_bit 1 (p_miso_in s)) (and (drop_bit 1 (data f)) 1),
            p_clock_count := p_clock_count s + 1\<rparr>, None)"
proof -
  have "assemble (tick s f) (data f) =
     Inr ((tick s f)\<lparr>p_mosi_out := or (push_bit 1 (p_mosi_out s)) (and (data f) 1),
            p_miso_in := or (push_bit 1 (p_miso_in s)) (and (drop_bit 1 (data f)) 1),
            p_clock_count := p_clock_count s + 1\<rparr>, [])"
    using assms(3,4) by (simp add: assemble_def single_lane_def Let_def)
  then show ?thesis by (simp add: decode_no_start [OF assms(1,2)])
qed

lemma decode_single_flush:
  assumes "\<not> burst_start s f" and "cs_of f \<noteq> 1" and "p_quad_start s = None"
    and "p_clock_count s mod 8 = 7"
    and "p_miso_data s = Some miso" and "p_mosi_data s = Some mosi"
    and "a = or (push_bit 1 (p_mosi_out s)) (and (data f) 1)"
    and "b = or (push_bit 1 (p_miso_in s)) (and (drop_bit 1 (data f)) 1)"
    and "0 \<le> a" and "a < 256" and "0 \<le> b" and "b < 256"
    and "p_clock_count s = 7 \<longrightarrow> CONTINUE_COMMANDS a = None"
  shows "decode cfg s f =
     Inr ((tick s f)\<lparr>p_mosi_out := 0, p_miso_in := 0, p_clock_count := p_clock_count s + 1,
            p_command := (if p_clock_count s = 7 then Some a else p_command s),
            p_miso_data := Some (miso @ [b]), p_mosi_data := Some (mosi @ [a])\<rparr>, None)"
proof -
  have "assemble (tick s f) (data f) =
     Inr ((tick s f)\<lparr>p_mosi_out := 0, p_miso_in := 0, p_clock_count := p_clock_count s + 1,
            p_command := (if p_clock_count s = 7 then Some a else p_command s)\<rparr>,
          [Result [a] [b]])"
    using assms(3,4,7,8,13) by (simp add: assemble_def single_lane_def Let_def)
  then show ?thesis
    using assms(5,6,9-12)
    by (simp add: decode_no_start [OF assms(1,2)] process_result_open del: process.simps)
qed

lemma diff_of_cong:
  "same_timing a b \<Longrightarrow> diff_of a f = diff_of b f"
  by (cases "p_last_time b") (simp_all add: same_timing_def diff_of_def)

lemma burst_start_cong:
  "same_timing a b \<Longrightarrow> burst_start a f = burst_start b f"
  using diff_of_cong [of a b f] by (simp add: same_timing_def burst_start_def)

lemma tick_cong:
  "same_timing a b \<Longrightarrow> same_timing (tick a f) (tick b f)"
  using diff_of_cong [of a b f] by (simp add: same_timing_def)

lemma same_timing_refl [simp]: "same_timing a a"
  by (simp add: same_timing_def)

lemma same_timing_trans: "same_timing a b \<Longrightarrow> same_timing b c \<Longrightarrow> same_timing a c"
  by (simp add: same_timing_def)

lemma quiet_cong: "same_timing a b \<Longrightarrow> quiet a fs = quiet b fs"
proof (induction fs arbitrary: a b)
  case Nil
  then show ?case by simp
next
  case (Cons f fs)
  show ?case
    using Cons.IH [OF tick_cong [OF Cons.prems, of f]] burst_start_cong [OF Cons.prems, of f]
    by simp
qed

lemma foldl_tick_cong: "same_timing a b \<Longrightarrow> same_timing (foldl tick a fs) (foldl tick b fs)"
proof (induction fs arbitrary: a b)
  case Nil
  then show ?case by simp
next
  case (Cons f fs)
  show ?case using Cons.IH [OF tick_cong [OF Cons.prems, of f]] by simp
qed

lemma quiet_append: "quiet s (xs @ ys) = (quiet s xs \<and> quiet (foldl tick s xs) ys)"
  by (induction xs arbitrary: s) simp_all

lemma and_one_cases: "and d 1 = 0 \<or> and d 1 = (1::int)"
  by (simp add: and_one_eq) presburger

lemma finish_byte:
  assumes "p_quad_start s = None" and "p_miso_data s = Some miso" and "p_mosi_data s = Some mosi"
    and "fs \<noteq> []" and "p_clock_count s mod 8 + int (length fs) = 8"
    and "0 \<le> p_mosi_out s" and "p_mosi_out s < 2 ^ nat (p_clock_count s mod 8)"
    and "0 \<le> p_miso_in s" and "p_miso_in s < 2 ^ nat (p_clock_count s mod 8)"
    and "quiet s fs" and "list_all (\<lambda>f. cs_of f = 0) fs"
    and "p_clock_count s + int (length fs) = 8 \<longrightarrow>
           CONTINUE_COMMANDS (pack (p_mosi_out s) (map (\<lambda>f. and (data f) 1) fs)) = None"
  shows "\<exists>s' mb. run cfg s fs = Inr (s', replicate (length fs) None)
           \<and> p_quad_start s' = None
           \<and> p_clock_count s' = p_clock_count s + int (length fs)
           \<and> p_mosi_out s' = 0 \<and> p_miso_in s' = 0
           \<and> p_mosi_data s' = Some (mosi @ [pack (p_mosi_out s) (map (\<lambda>f. and (data f) 1) fs)])
           \<and> p_miso_data s' = Some (miso @ [mb])
           \<and> same_timing s' (foldl tick s fs) \<and> same_burst s' s"
  using assms
proof (induction fs arbitrary: s)
  case Nil
  then show ?case by simp
next
  case (Cons f fs)
  let ?j = "nat (p_clock_count s mod 8)"
  let ?a = "or (push_bit 1 (p_mosi_out s)) (and (data f) 1)"
  let ?b = "or (push_bit 1 (p_miso_in s)) (and (drop_bit 1 (data f)) 1)"
  have nb: "\<not> burst_start s f" and q: "quiet (tick s f) fs"
    using Cons.prems(10) by (auto split: if_splits)
  have cs: "cs_of f \<noteq> 1" using Cons.prems(11) by simp
  have ra: "0 \<le> ?a \<and> ?a < 2 ^ (?j + 1)"
    using pack_range [OF Cons.prems(6,7), of "[and (data f) 1]"] and_one_cases [of "data f"]
    by simp
  have rb: "0 \<le> ?b \<and> ?b < 2 ^ (?j + 1)"
    using pack_range [OF Cons.prems(8,9), of "[and (drop_bit 1 (data f)) 1]"]
      and_one_cases [of "drop_bit 1 (data f)"]
    by simp
  show ?case
  proof (cases "fs = []")
    case True
    then have m: "p_clock_count s mod 8 = 7" using Cons.prems(5) by simp
    then have j: "?j + 1 = 8" by simp
    have c: "p_clock_count s = 7 \<longrightarrow> CONTINUE_COMMANDS ?a = None"
      using Cons.prems(12) True by simp
    have r: "0 \<le> ?a" "?a < 256" "0 \<le> ?b" "?b < 256"
      using ra rb unfolding j by simp_all
    note d = decode_single_flush [OF nb cs Cons.prems(1) m Cons.prems(2,3) refl refl r c, of cfg]
    show ?thesis
      unfolding True using Cons.prems(1) by (simp add: d same_timing_def same_burst_def)
  next
    case False
    then have m: "p_clock_count s mod 8 \<noteq> 7" using Cons.prems(5) by (cases fs) auto
    let ?s1 = "(tick s f)\<lparr>p_mosi_out := ?a, p_miso_in := ?b, p_clock_count := p_clock_count s + 1\<rparr>"
    note d = decode_single_hold [OF nb cs Cons.prems(1) m, of cfg]
    have m1: "p_clock_count ?s1 mod 8 = p_clock_count s mod 8 + 1"
      using m by simp presburger
    have j1: "nat (p_clock_count ?s1 mod 8) = ?j + 1"
      unfolding m1 by (simp add: nat_add_distrib)
    have st: "same_timing ?s1 (tick s f)" by (simp add: same_timing_def)
    have i1: "p_quad_start ?s1 = None" using Cons.prems(1) by simp
    have i2: "p_miso_data ?s1 = Some miso" using Cons.prems(2) by simp
    have i3: "p_mosi_data ?s1 = Some mosi" using Cons.prems(3) by simp
    have i5: "p_clock_count ?s1 mod 8 + int (length fs) = 8"
      unfolding m1 using Cons.prems(5) by simp
    have i6: "0 \<le> p_mosi_out ?s1" "p_mosi_out ?s1 < 2 ^ nat (p_clock_count ?s1 mod 8)"
      unfolding j1 using ra by simp_all
    have i8: "0 \<le> p_miso_in ?s1" "p_miso_in ?s1 < 2 ^ nat (p_clock_count ?s1 mod 8)"
      unfolding j1 using rb by simp_all
    have i10: "quiet ?s1 fs" using q quiet_cong [OF st, of fs] by simp
    have i11: "list_all (\<lambda>f. cs_of f = 0) fs" using Cons.prems(11) by simp
    have i12: "p_clock_count ?s1 + int (length fs) = 8 \<longrightarrow>
           CONTINUE_COMMANDS (pack (p_mosi_out ?s1) (map (\<lambda>f. and (data f) 1) fs)) = None"
      using Cons.prems(12) by simp
    from Cons.IH [OF i1 i2 i3 False i5 i6 i8 i10 i11 i12]
    obtain s' mb where r: "run cfg ?s1 fs = Inr (s', replicate (length fs) None)"
        "p_quad_start s' = None" "p_clock_count s' = p_clock_count ?s1 + int (length fs)"
        "p_mosi_out s' = 0" "p_miso_in s' = 0"
        "p_mosi_data s' = Some (mosi @ [pack (p_mosi_out ?s1) (map (\<lambda>f. and (data f) 1) fs)])"
        "p_miso_data s' = Some (miso @ [mb])"
        "same_timing s' (foldl tick ?s1 fs)" "same_burst s' ?s1"
      by blast
    have t: "same_timing s' (foldl tick s (f # fs))"
      using same_timing_trans [OF r(8) foldl_tick_cong [OF st, of fs]] by simp
    have sb: "same_burst s' s" using r(9) by (simp add: same_burst_def)
    have "run cfg s (f # fs) = Inr (s', None # replicate (length fs) None)"
      by (simp only: run.simps d r(1) sum.case prod.case)
    then show ?thesis using r(2-7) t sb by simp
  qed
qed

lemma map_eq_append_split:
  assumes "map g zs = xs @ ys"
  shows "map g (take (length xs) zs) = xs \<and> map g (drop (length xs) zs) = ys"
proof -
  have "take (length xs) (map g zs) = xs" "drop (length xs) (map g zs) = ys"
    unfolding assms by simp_all
  then show ?thesis by (simp add: take_map drop_map)
qed

lemma length_bits_msb [simp]: "length (bits_msb b) = 8"
  by (simp add: bits_msb_def)

lemma following_bytes:
  assumes "p_quad_start s = None" and "p_miso_data s = Some miso" and "p_mosi_data s = Some mosi"
    and "p_clock_count s mod 8 = 0" and "0 < p_clock_count s"
    and "p_mosi_out s = 0" and "p_miso_in s = 0"
    and "quiet s fs" and "list_all (\<lambda>f. cs_of f = 0) fs"
    and "map (\<lambda>f. and (data f) 1) fs = concat (map bits_msb bytes)"
    and "list_all (\<lambda>b. 0 \<le> b \<and> b < 256) bytes"
  shows "\<exists>s' mbs. run cfg s fs = Inr (s', replicate (length fs) None)
           \<and> p_mosi_data s' = Some (mosi @ bytes) \<and> p_miso_data s' = Some (miso @ mbs)
           \<and> same_timing s' (foldl tick s fs) \<and> same_burst s' s"
  using assms
proof (induction bytes arbitrary: s fs miso mosi)
  case Nil
  then show ?case by (simp add: same_burst_def)
next
  case (Cons b bs)
  let ?g = "\<lambda>f. and (data f) 1"
  let ?xs = "take 8 fs" and ?ys = "drop 8 fs"
  have sp: "map ?g ?xs = bits_msb b" "map ?g ?ys = concat (map bits_msb bs)"
    using map_eq_append_split [of ?g fs "bits_msb b" "concat (map bits_msb bs)"] Cons.prems(10)
    by simp_all
  have lx: "length ?xs = 8" using arg_cong [OF sp(1), of length] by simp
  have fs: "fs = ?xs @ ?ys" by simp
  have q: "quiet s ?xs" "quiet (foldl tick s ?xs) ?ys"
    using Cons.prems(8) quiet_append [of s ?xs ?ys] by simp_all
  have cs: "list_all (\<lambda>f. cs_of f = 0) ?xs" "list_all (\<lambda>f. cs_of f = 0) ?ys"
    using Cons.prems(9) by (auto simp: list_all_iff dest: in_set_takeD in_set_dropD)
  have rb: "0 \<le> b" "b < 256" using Cons.prems(11) by simp_all
  have x0: "?xs \<noteq> []" using lx by auto
  have f5: "p_clock_count s mod 8 + int (length ?xs) = 8" using Cons.prems(4) lx by simp
  have f6: "0 \<le> p_mosi_out s" "p_mosi_out s < 2 ^ nat (p_clock_count s mod 8)"
    using Cons.prems(4,6) by simp_all
  have f8: "0 \<le> p_miso_in s" "p_miso_in s < 2 ^ nat (p_clock_count s mod 8)"
    using Cons.prems(4,7) by simp_all
  have f12: "p_clock_count s + int (length ?xs) = 8 \<longrightarrow>
           CONTINUE_COMMANDS (pack (p_mosi_out s) (map ?g ?xs)) = None"
    using Cons.prems(5) lx by simp
  from finish_byte [OF Cons.prems(1,2,3) x0 f5 f6 f8 q(1) cs(1) f12, of cfg]
  obtain s1 mb where r: "run cfg s ?xs = Inr (s1, replicate (length ?xs) None)"
      "p_quad_start s1 = None" "p_clock_count s1 = p_clock_count s + int (length ?xs)"
      "p_mosi_out s1 = 0" "p_miso_in s1 = 0"
      "p_mosi_data s1 = Some (mosi @ [pack (p_mosi_out s) (map ?g ?xs)])"
      "p_miso_data s1 = Some (miso @ [mb])"
      "same_timing s1 (foldl tick s ?xs)" "same_burst s1 s"
    by blast
  have pb: "pack (p_mosi_out s) (map ?g ?xs) = b"
    unfolding sp(1) Cons.prems(6) by (rule pack_bits_msb [OF rb])
  have g4: "p_clock_count s1 mod 8 = 0" "0 < p_clock_count s1"
    using r(3) lx Cons.prems(4,5) by simp_all
  have g8: "quiet s1 ?ys" using q(2) quiet_cong [OF r(8), of ?ys] by simp
  have g11: "list_all (\<lambda>b. 0 \<le> b \<and> b < 256) bs" using Cons.prems(11) by simp
  from Cons.IH [OF r(2) r(7) r(6) g4 r(4,5) g8 cs(2) sp(2) g11]
  obtain s' mbs where t: "run cfg s1 ?ys = Inr (s', replicate (length ?ys) None)"
      "p_mosi_data s' = Some ((mosi @ [pack (p_mosi_out s) (map ?g ?xs)]) @ bs)"
      "p_miso_data s' = Some ((miso @ [mb]) @ mbs)"
      "same_timing s' (foldl tick s1 ?ys)" "same_burst s' s1"
    by blast
  have "same_timing s' (foldl tick (foldl tick s ?xs) ?ys)"
    using same_timing_trans [OF t(4) foldl_tick_cong [OF r(8), of ?ys]] .
  then have tm: "same_timing s' (foldl tick s fs)"
    by (simp only: foldl_append [symmetric] append_take_drop_id)
  have sb: "same_burst s' s" using t(5) r(9) by (simp add: same_burst_def)
  have "run cfg s (?xs @ ?ys) = Inr (s', replicate (length ?xs) None @ replicate (length ?ys) None)"
    by (simp only: run_append r(1) t(1) sum.case prod.case)
  moreover have "replicate (length ?xs) None @ replicate (length ?ys) None
      = replicate (length fs) (None :: analyzer_frame option)"
    by (metis append_take_drop_id length_append replicate_add)
  ultimately have "run cfg s fs = Inr (s', replicate (length fs) None)"
    by (simp only: append_take_drop_id)
  then show ?case using t(2,3) pb tm sb by auto
qed

lemma assemble_single_hold:
  assumes "p_quad_start s = None" and "p_clock_count s mod 8 \<noteq> 7"
  shows "assemble s d =
     Inr (s\<lparr>p_mosi_out := or (push_bit 1 (p_mosi_out s)) (and d 1),
            p_miso_in := or (push_bit 1 (p_miso_in s)) (and (drop_bit 1 d) 1),
            p_clock_count := p_clock_count s + 1\<rparr>, [])"
  using assms by (simp add: assemble_def single_lane_def Let_def)

lemma decode_start_fresh:
  assumes "burst_start s f" and "\<not> p_continuous s"
  shows "\<exists>ab af out. decode cfg s f =
     Inr ((tick s f)\<lparr>p_transaction := p_transaction s + 1, p_clock_count := 1,
            p_command := Some 0, p_quad_start := None, p_dummy := 0,
            p_mosi_out := and (data f) 1, p_miso_in := and (drop_bit 1 (data f)) 1,
            p_address_bytes := ab, p_address_format := af,
            p_start_time := Some (start_time f),
            p_miso_data := Some [], p_mosi_data := Some []\<rparr>, out)"
proof -
  let ?s1 = "(tick s f)\<lparr>p_transaction := p_transaction s + 1, p_clock_count := 0,
            p_command := Some 0, p_quad_start := None, p_dummy := 0,
            p_mosi_out := 0, p_miso_in := 0\<rparr>"
  let ?s2 = "?s1\<lparr>p_mosi_out := and (data f) 1, p_miso_in := and (drop_bit 1 (data f)) 1,
            p_clock_count := 1\<rparr>"
  let ?tail = "[Enable (start_time f)]"
  have cs: "cs_of f \<noteq> 1" using assms(1) by (simp add: burst_start_def)
  have a: "assemble ?s1 (data f) = Inr (?s2, [])"
    by (subst assemble_single_hold) simp_all
  have t: "process_all cfg s' out ?tail =
      Inr (s'\<lparr>p_start_time := Some (start_time f), p_miso_data := Some [], p_mosi_data := Some []\<rparr>, out)"
    for s' out
    by simp
  show ?thesis
  proof (cases "p_transaction s > 0")
    case False
    have d: "decode cfg s f = process_all cfg ?s2 None ?tail"
      using False cs by (simp add: decode_def detect_start_fresh [OF assms] a del: process_all.simps)
    show ?thesis
      unfolding d t
      by (rule exI [of _ "p_address_bytes s"], rule exI [of _ "p_address_format s"],
          rule exI [of _ None]) simp
  next
    case True
    have d: "decode cfg s f = process_all cfg ?s2 None (Disable (p_last_time s) # ?tail)"
      using True cs by (simp add: decode_def detect_start_fresh [OF assms] a del: process_all.simps)
    obtain ab af mi mo out' where p: "process cfg ?s2 None (Disable (p_last_time s)) =
       Inr (?s2\<lparr>p_address_bytes := ab, p_address_format := af, p_miso_data := mi, p_mosi_data := mo\<rparr>, out')"
      using process_disable_state by blast
    have "decode cfg s f =
       Inr (?s2\<lparr>p_address_bytes := ab, p_address_format := af, p_miso_data := mi, p_mosi_data := mo,
              p_start_time := Some (start_time f), p_miso_data := Some [], p_mosi_data := Some []\<rparr>, out')"
      unfolding d process_all.simps(2) [of cfg ?s2 None "Disable (p_last_time s)"] p
      by (simp only: sum.case prod.case t)
    then show ?thesis
      by (intro exI [of _ ab] exI [of _ af] exI [of _ out']) simp
  qed
qed



lemma opcode_burst:
  assumes "p_quad_start s = None" and "p_clock_count s = 1"
    and "p_miso_data s = Some []" and "p_mosi_data s = Some []"
    and "0 \<le> p_miso_in s" and "p_miso_in s < 2"
    and "quiet s fs" and "list_all (\<lambda>f. cs_of f = 0) fs"
    and "p_mosi_out s # map (\<lambda>f. and (data f) 1) fs = concat (map bits_msb (opc # bytes))"
    and "CONTINUE_COMMANDS opc = None"
    and "list_all (\<lambda>b. 0 \<le> b \<and> b < 256) (opc # bytes)"
  shows "\<exists>s' mb mbs. run cfg s fs = Inr (s', replicate (length fs) None)
           \<and> p_mosi_data s' = Some (opc # bytes) \<and> p_miso_data s' = Some (mb # mbs)
           \<and> same_timing s' (foldl tick s fs) \<and> same_burst s' s"
proof -
  let ?g = "\<lambda>f. and (data f) 1"
  let ?xs = "take 7 fs" and ?ys = "drop 7 fs"
  have e: "p_mosi_out s # map ?g fs = bits_msb opc @ concat (map bits_msb bytes)"
    using assms(9) by simp
  have "take 8 (p_mosi_out s # map ?g fs) = bits_msb opc"
      "drop 8 (p_mosi_out s # map ?g fs) = concat (map bits_msb bytes)"
    unfolding e by simp_all
  then have b0: "p_mosi_out s # map ?g ?xs = bits_msb opc"
    and g10: "map ?g ?ys = concat (map bits_msb bytes)"
    by (simp_all add: numeral_eq_Suc take_map drop_map)
  have lx: "length ?xs = 7" using arg_cong [OF b0, of length] by simp
  have q: "quiet s ?xs" "quiet (foldl tick s ?xs) ?ys"
    using assms(7) quiet_append [of s ?xs ?ys] by simp_all
  have cs: "list_all (\<lambda>f. cs_of f = 0) ?xs" "list_all (\<lambda>f. cs_of f = 0) ?ys"
    using assms(8) by (auto simp: list_all_iff dest: in_set_takeD in_set_dropD)
  have ro: "0 \<le> opc" "opc < 256" using assms(11) by simp_all
  have "p_mosi_out s \<in> set (bits_msb opc)" using b0 by (metis list.set_intros(1))
  then have "\<exists>d. p_mosi_out s = and d 1" by (auto simp add: bits_msb_def)
  then have m01: "p_mosi_out s = 0 \<or> p_mosi_out s = 1"
    using and_one_cases by metis
  have pk: "pack (p_mosi_out s) (map ?g ?xs) = opc"
  proof -
    have "pack (p_mosi_out s) (map ?g ?xs) = pack 0 (p_mosi_out s # map ?g ?xs)"
      using m01 by auto
    also have "\<dots> = opc" unfolding b0 by (rule pack_bits_msb [OF ro])
    finally show ?thesis .
  qed
  have x0: "?xs \<noteq> []" using lx by auto
  have f5: "p_clock_count s mod 8 + int (length ?xs) = 8" using lx assms(2) by simp
  have f6: "0 \<le> p_mosi_out s" "p_mosi_out s < 2 ^ nat (p_clock_count s mod 8)"
    using m01 assms(2) by auto
  have f8: "0 \<le> p_miso_in s" "p_miso_in s < 2 ^ nat (p_clock_count s mod 8)"
    using assms(2,5,6) by auto
  have f12: "p_clock_count s + int (length ?xs) = 8 \<longrightarrow>
           CONTINUE_COMMANDS (pack (p_mosi_out s) (map ?g ?xs)) = None"
    unfolding pk using assms(10) by simp
  from finish_byte [OF assms(1,3,4) x0 f5 f6 f8 q(1) cs(1) f12, of cfg]
  obtain s2 mb where r: "run cfg s ?xs = Inr (s2, replicate (length ?xs) None)"
      "p_quad_start s2 = None" "p_clock_count s2 = p_clock_count s + int (length ?xs)"
      "p_mosi_out s2 = 0" "p_miso_in s2 = 0"
      "p_mosi_data s2 = Some ([] @ [pack (p_mosi_out s) (map ?g ?xs)])"
      "p_miso_data s2 = Some ([] @ [mb])"
      "same_timing s2 (foldl tick s ?xs)" "same_burst s2 s"
    by blast
  have g4: "p_clock_count s2 mod 8 = 0" "0 < p_clock_count s2"
    using r(3) lx assms(2) by simp_all
  have g8: "quiet s2 ?ys" using q(2) quiet_cong [OF r(8), of ?ys] by simp
  have g11: "list_all (\<lambda>b. 0 \<le> b \<and> b < 256) bytes" using assms(11) by simp
  from following_bytes [OF r(2) r(7) r(6) g4 r(4,5) g8 cs(2) g10 g11, of cfg]
  obtain s3 mbs where t: "run cfg s2 ?ys = Inr (s3, replicate (length ?ys) None)"
      "p_mosi_data s3 = Some (([] @ [pack (p_mosi_out s) (map ?g ?xs)]) @ bytes)"
      "p_miso_data s3 = Some (([] @ [mb]) @ mbs)"
      "same_timing s3 (foldl tick s2 ?ys)" "same_burst s3 s2"
    by blast
  have "run cfg s (?xs @ ?ys) = Inr (s3, replicate (length ?xs) None @ replicate (length ?ys) None)"
    by (simp only: run_append r(1) t(1) sum.case prod.case)
  moreover have "replicate (length ?xs) None @ replicate (length ?ys) None
      = replicate (length fs) (None :: analyzer_frame option)"
    by (metis append_take_drop_id length_append replicate_add)
  ultimately have u: "run cfg s fs = Inr (s3, replicate (length fs) None)"
    by (simp only: append_take_drop_id)
  have "same_timing s3 (foldl tick (foldl tick s ?xs) ?ys)"
    using same_timing_trans [OF t(4) foldl_tick_cong [OF r(8), of ?ys]] .
  then have tm: "same_timing s3 (foldl tick s fs)"
    by (simp only: foldl_append [symmetric] append_take_drop_id)
  have sb: "same_burst s3 s" using t(5) r(9) by (simp add: same_burst_def)
  have "p_mosi_data s3 = Some (opc # bytes)" using t(2) unfolding pk by simp
  moreover have "p_miso_data s3 = Some (mb # mbs)" using t(3) by simp
  ultimately show ?thesis using u tm sb by blast
qed


text \<open>
  C9. Let the first sample open a burst that carries its own opcode (the continuous flag
  is not set), let no later sample be taken for a burst start, let every later sample
  have chip-select value 0, and let bit 0 of the data words be the bits, most significant
  first, of an opcode byte that is not a continuation opcode followed by any bytes. Then
  every call returns, and afterwards the host-to-device sequence is exactly the opcode
  followed by those bytes, unchanged and in order.
\<close>

theorem single_lane_round_trip:
  assumes "burst_start s f0" and "\<not> p_continuous s"
    and "quiet (tick s f0) fs"
    and "list_all (\<lambda>f. cs_of f = 0) fs"
    and "map (\<lambda>f. and (data f) 1) (f0 # fs) = concat (map bits_msb (opc # bytes))"
    and "CONTINUE_COMMANDS opc = None"
    and "list_all (\<lambda>b. 0 \<le> b \<and> b < 256) (opc # bytes)"
  shows "\<exists>s' outs. run cfg s (f0 # fs) = Inr (s', outs) \<and> p_mosi_data s' = Some (opc # bytes)"
proof -
  obtain ab af out where d: "decode cfg s f0 =
     Inr ((tick s f0)\<lparr>p_transaction := p_transaction s + 1, p_clock_count := 1,
            p_command := Some 0, p_quad_start := None, p_dummy := 0,
            p_mosi_out := and (data f0) 1, p_miso_in := and (drop_bit 1 (data f0)) 1,
            p_address_bytes := ab, p_address_format := af,
            p_start_time := Some (start_time f0),
            p_miso_data := Some [], p_mosi_data := Some []\<rparr>, out)"
    (is "_ = Inr (?s1, _)")
    using decode_start_fresh [OF assms(1,2)] by blast
  have st: "same_timing ?s1 (tick s f0)" by (simp add: same_timing_def)
  have h1: "p_quad_start ?s1 = None" "p_clock_count ?s1 = 1"
      "p_miso_data ?s1 = Some []" "p_mosi_data ?s1 = Some []"
    by simp_all
  have h5: "0 \<le> p_miso_in ?s1" "p_miso_in ?s1 < 2"
    using and_one_cases [of "drop_bit 1 (data f0)"] by auto
  have h7: "quiet ?s1 fs" using assms(3) quiet_cong [OF st, of fs] by simp
  have h9: "p_mosi_out ?s1 # map (\<lambda>f. and (data f) 1) fs = concat (map bits_msb (opc # bytes))"
    using assms(5) by simp
  from opcode_burst [OF h1 h5 h7 assms(4) h9 assms(6,7), of cfg]
  obtain s' where r: "run cfg ?s1 fs = Inr (s', replicate (length fs) None)"
      "p_mosi_data s' = Some (opc # bytes)"
    by blast
  have "run cfg s (f0 # fs) = Inr (s', out # replicate (length fs) None)"
    by (simp only: run.simps d r(1) sum.case prod.case)
  then show ?thesis using r(2) by blast
qed

theorem single_lane_round_trip_witness:
  "\<exists>s' outs.
     run example_settings (init example_settings)
       (\<lparr>start_time = 0, data = 0\<rparr>
        # clock (1 / 1000000) (1 / 1000000) [0, 2, 0, 0, 0, 1, 3, 1, 0, 1, 0, 2, 1, 0, 1]) = Inr (s', outs)
     \<and> p_mosi_data s' = Some [0x03, 0xA5]"
proof -
  let ?f0 = "\<lparr>start_time = 0, data = 0\<rparr>"
  let ?fs = "clock (1 / 1000000) (1 / 1000000) [0, 2, 0, 0, 0, 1, 3, 1, 0, 1, 0, 2, 1, 0, 1]"
  have h1: "burst_start (init example_settings) ?f0"
    by (simp add: burst_start_def diff_of_def init_def cs_of_def)
  have h2: "\<not> p_continuous (init example_settings)"
    by (simp add: init_def)
  have h3: "quiet (tick (init example_settings) ?f0) ?fs"
    by (simp add: tick_def burst_start_def diff_of_def init_def)
  have h4: "list_all (\<lambda>f. cs_of f = 0) ?fs"
    by (simp add: cs_of_def)
  have b: "bits_msb 0x03 = [0, 0, 0, 0, 0, 0, 1, 1]" "bits_msb 0xA5 = [1, 0, 1, 0, 0, 1, 0, 1]"
    by code_simp+
  have h5: "map (\<lambda>f. and (data f) 1) (?f0 # ?fs) = concat (map bits_msb [0x03, 0xA5])"
    by (simp add: b)
  have h6: "CONTINUE_COMMANDS 0x03 = None"
    by (simp add: CONTINUE_COMMANDS_def)
  have h7: "list_all (\<lambda>b. 0 \<le> b \<and> b < 256) [0x03, 0xA5 :: int]"
    by simp
  show ?thesis
    by (rule single_lane_round_trip [OF h1 h2 h3 h4 h5 h6 h7])
qed

subsection \<open>Address width\<close>





end
